theory Spec2Isabelle
  imports Complex_Main
begin

section \<open>The game canvas component: data model\<close>

text \<open>
  The component is one TypeScript file: a React component whose effect, while the game state
  is PLAYING, runs a frame loop (\<open>gameLoop\<close>) over variables local to the effect's closure.
  JavaScript numbers are modelled as \<^typ>\<open>real\<close> (all constants are decimal fractions and
  every comparison of the source is kept as written; rounding of doubles, NaN and the
  infinities are outside the model). Counters that start at zero and are only incremented
  are \<^typ>\<open>nat\<close>. Every call of \<open>Math.random()\<close> is an input of the operation that makes it.
  Drawing on the canvas and the trail buffer (read by the drawing code only) are left out.
\<close>

subsection \<open>Constants\<close>

definition GAME_WIDTH :: real where "GAME_WIDTH = 800"
definition GAME_HEIGHT :: real where "GAME_HEIGHT = 600"
definition GATE_SPEED :: real where "GATE_SPEED = 253 / 100"
definition DIFFICULTY_INCREASE :: real where "DIFFICULTY_INCREASE = 1 / 10"
definition DIFFICULTY_GATE_THRESHOLD :: nat where "DIFFICULTY_GATE_THRESHOLD = 15"
definition BTC_SPEED_BOOST :: real where "BTC_SPEED_BOOST = 11 / 10"
definition SOL_SPEED_BOOST :: real where "SOL_SPEED_BOOST = 2"
definition GATE_WIDTH :: real where "GATE_WIDTH = 50"
definition GATE_DISTANCE :: real where "GATE_DISTANCE = GATE_WIDTH * 4"
definition INITIAL_GATE_GAP :: real where "INITIAL_GATE_GAP = 150"
definition NARROW_GATE_GAP :: real where "NARROW_GATE_GAP = 120"
definition GATE_GAP_INCREASE_PERCENT :: real where "GATE_GAP_INCREASE_PERCENT = 50"
definition LINE_X_POSITION :: real where "LINE_X_POSITION = 100"
definition BOUNCE_VELOCITY :: real where "BOUNCE_VELOCITY = - (55 / 10)"
definition GRAVITY :: real where "GRAVITY = 22 / 100"
definition TOKEN_COLLECTION_RADIUS :: real where "TOKEN_COLLECTION_RADIUS = 50"
definition BCH_CHAOS_DURATION :: real where "BCH_CHAOS_DURATION = 3000"
definition SOL_EFFECT_DURATION :: real where "SOL_EFFECT_DURATION = 5000"
definition MIN_VERTICAL_VARIANCE :: real where "MIN_VERTICAL_VARIANCE = - 100"
definition MAX_VERTICAL_VARIANCE :: real where "MAX_VERTICAL_VARIANCE = 100"

subsection \<open>Enumerations and objects\<close>

text \<open>The constructors are in the declaration order of the enum \<open>TokenType\<close>.\<close>

datatype TokenType = NONE | BTC | ETH | TAO | BCH | HBAR | SOL

datatype GameState = START | PLAYING | GAME_OVER

text \<open>
  Interface \<open>Gate\<close>. The field \<open>x\<close> of the source is \<open>gx\<close> here, since a record field is a
  constant of the theory and \<open>x\<close> is wanted as a variable name.
\<close>

record Gate =
  gx :: real
  topHeight :: real
  hasPassed :: bool
  tokenType :: TokenType
  baseGateGap :: real
  isFlashing :: bool

text \<open>Interface \<open>TokenEffect\<close>; its field \<open>type\<close> is \<open>etype\<close> here.\<close>

record TokenEffect =
  etype :: TokenType
  endTime :: real

text \<open>
  Interface \<open>TokenCounts\<close>: an object with exactly the six keys below, in this order.
  \<open>countOf c k\<close> is \<open>c[k]\<close> and \<open>setCount c k n\<close> is \<open>{...c, [k]: n}\<close>. The source never
  indexes a counts object with \<open>TokenType.NONE\<close> (collection is guarded by
  \<open>gate.tokenType !== TokenType.NONE\<close>, the end-of-run update walks \<open>Object.keys\<close>), so the
  \<open>NONE\<close> equations are never used by the operations below.
\<close>

record TokenCounts =
  btc :: nat
  eth :: nat
  tao :: nat
  bch :: nat
  hbar :: nat
  sol :: nat

fun countOf :: "TokenCounts \<Rightarrow> TokenType \<Rightarrow> nat" where
  "countOf c BTC = btc c"
| "countOf c ETH = eth c"
| "countOf c TAO = tao c"
| "countOf c BCH = bch c"
| "countOf c HBAR = hbar c"
| "countOf c SOL = sol c"
| "countOf c NONE = 0"

fun setCount :: "TokenCounts \<Rightarrow> TokenType \<Rightarrow> nat \<Rightarrow> TokenCounts" where
  "setCount c BTC n = c\<lparr>btc := n\<rparr>"
| "setCount c ETH n = c\<lparr>eth := n\<rparr>"
| "setCount c TAO n = c\<lparr>tao := n\<rparr>"
| "setCount c BCH n = c\<lparr>bch := n\<rparr>"
| "setCount c HBAR n = c\<lparr>hbar := n\<rparr>"
| "setCount c SOL n = c\<lparr>sol := n\<rparr>"
| "setCount c NONE n = c"

definition zeroCounts :: TokenCounts where
  "zeroCounts = \<lparr>btc = 0, eth = 0, tao = 0, bch = 0, hbar = 0, sol = 0\<rparr>"

text \<open>\<open>Object.keys\<close> of a counts object: the six keys in insertion order.\<close>

definition countKeys :: "TokenType list" where
  "countKeys = [BTC, ETH, TAO, BCH, HBAR, SOL]"

text \<open>
  The state of the whole component. The first group are the variables local to the effect
  (the frame loop's closure). \<open>highScore\<close> and \<open>highestTokenCounts\<close> are the values of the
  React state captured by that closure when the effect starts: the loop reads them and never
  assigns them. The fields \<open>st_...\<close> are the React state as the setters leave it,
  \<open>tokenCountsRef\<close> is the ref, \<open>ls_...\<close> are the two entries of localStorage (absent is
  \<open>None\<close>; a stored value is kept as the value it encodes), and \<open>frameRequested\<close> says that
  a callback of \<open>requestAnimationFrame\<close> is outstanding.
\<close>

record Sim =
  lineY :: real
  lineVelocity :: real
  isAscending :: bool
  gates :: "Gate list"
  lastGateX :: real
  gatesPassed :: nat
  currentScore :: nat
  baseSpeed :: real
  currentSpeed :: real
  activeEffects :: "TokenEffect list"
  isGoldMode :: bool
  flashingGates :: bool
  btcEffectActive :: bool
  solEffectActive :: bool
  screenFlashTime :: real
  chaosMode :: bool
  chaosModeEndTime :: real
  lastTokenType :: TokenType
  difficultyLevel :: nat
  highScore :: nat
  highestTokenCounts :: TokenCounts
  st_gameState :: GameState
  st_score :: nat
  st_highScore :: nat
  st_tokenCounts :: TokenCounts
  st_highestTokenCounts :: TokenCounts
  tokenCountsRef :: TokenCounts
  ls_highScore :: "nat option"
  ls_highestTokenCounts :: "TokenCounts option"
  frameRequested :: bool

text \<open>
  The values \<open>Math.random()\<close> returns during one frame (or one \<open>initializeGate\<close>), named by
  the call that consumes them. Each is a number in the half-open interval from 0 to 1.
\<close>

record Rolls =
  chaosRoll :: real
  varianceRoll :: real
  heightRoll :: real
  narrowRoll :: real
  tokenRoll :: real
  indexRoll :: real

definition unitRoll :: "real \<Rightarrow> bool" where
  "unitRoll r \<longleftrightarrow> 0 \<le> r \<and> r < 1"

section \<open>Operations\<close>

subsection \<open>Input\<close>

definition handleInput :: "Sim \<Rightarrow> Sim" where
  "handleInput s = s\<lparr>lineVelocity := BOUNCE_VELOCITY, isAscending := True\<rparr>"

subsection \<open>Spawning a gate\<close>

definition getRandomVerticalVariance :: "real \<Rightarrow> real" where
  "getRandomVerticalVariance r =
     MIN_VERTICAL_VARIANCE + r * (MAX_VERTICAL_VARIANCE - MIN_VERTICAL_VARIANCE)"

text \<open>
  \<open>getRandomTokenType\<close>, with the two random numbers it draws and the variable
  \<open>lastTokenType\<close> it reads as arguments. The six conditional pushes build the pool in
  declaration order, which is the filter below. The index
  \<open>Math.floor(Math.random() * possibleTokens.length)\<close> is within the pool for a draw in the
  unit interval; what is proved about the function assumes \<open>unitRoll\<close> of that draw.
\<close>

definition possibleTokens :: "TokenType \<Rightarrow> TokenType list" where
  "possibleTokens lastT = filter (\<lambda>k. lastT \<noteq> k) [BTC, ETH, TAO, BCH, HBAR, SOL]"

definition getRandomTokenType :: "real \<Rightarrow> real \<Rightarrow> TokenType \<Rightarrow> TokenType" where
  "getRandomTokenType tRoll iRoll lastT =
     (if tRoll < 25 / 100 then
        (if length (possibleTokens lastT) > 0
         then possibleTokens lastT ! nat \<lfloor>iRoll * real (length (possibleTokens lastT))\<rfloor>
         else NONE)
      else NONE)"

text \<open>
  The body shared by \<open>initializeGate\<close> and by the spawn branch of \<open>gameLoop\<close> (the source
  has the same statements twice).
\<close>

definition newTopHeight :: "Rolls \<Rightarrow> real" where
  "newTopHeight r =
     (let verticalVariance = getRandomVerticalVariance (varianceRoll r);
          minTopHeight = 50;
          maxTopHeight = GAME_HEIGHT - INITIAL_GATE_GAP - 100;
          th = heightRoll r * (maxTopHeight - minTopHeight) + minTopHeight
      in max minTopHeight (min maxTopHeight (th + verticalVariance)))"

definition initializeGate :: "Rolls \<Rightarrow> Sim \<Rightarrow> Sim" where
  "initializeGate r s =
     (let tt = getRandomTokenType (tokenRoll r) (indexRoll r) (lastTokenType s)
      in s\<lparr>lastTokenType := tt,
            gates := gates s @
              [\<lparr>gx = GAME_WIDTH, topHeight = newTopHeight r, hasPassed = False,
                tokenType = tt,
                baseGateGap = (if narrowRoll r < 3 / 10 then NARROW_GATE_GAP else INITIAL_GATE_GAP),
                isFlashing = False\<rparr>],
            lastGateX := GAME_WIDTH\<rparr>)"

subsection \<open>Effects\<close>

fun applyRule :: "TokenEffect \<Rightarrow> Sim \<Rightarrow> Sim" where
  "applyRule e s =
     (case etype e of
        ETH \<Rightarrow> s\<lparr>currentSpeed := baseSpeed s * (5 / 10)\<rparr>
      | TAO \<Rightarrow> s\<lparr>flashingGates := True\<rparr>
      | HBAR \<Rightarrow> s\<lparr>isGoldMode := True\<rparr>
      | BTC \<Rightarrow> s\<lparr>btcEffectActive := True, currentSpeed := baseSpeed s * BTC_SPEED_BOOST\<rparr>
      | SOL \<Rightarrow> s\<lparr>solEffectActive := True, currentSpeed := baseSpeed s * SOL_SPEED_BOOST,
                 lineVelocity := 0\<rparr>
      | _ \<Rightarrow> s)"

fun applyRules :: "TokenEffect list \<Rightarrow> Sim \<Rightarrow> Sim" where
  "applyRules [] s = s"
| "applyRules (e # es) s = applyRules es (applyRule e s)"

definition processEffects :: "real \<Rightarrow> Sim \<Rightarrow> Sim" where
  "processEffects timestamp s =
     (let live = filter (\<lambda>effect. endTime effect > timestamp) (activeEffects s)
      in applyRules live
           (s\<lparr>activeEffects := live, currentSpeed := baseSpeed s, isGoldMode := False,
              flashingGates := False, btcEffectActive := False, solEffectActive := False\<rparr>))"

definition pushEffect :: "TokenType \<Rightarrow> real \<Rightarrow> Sim \<Rightarrow> Sim" where
  "pushEffect k t s = s\<lparr>activeEffects := activeEffects s @ [\<lparr>etype = k, endTime = t\<rparr>]\<rparr>"

fun applyTokenEffect :: "TokenType \<Rightarrow> real \<Rightarrow> Sim \<Rightarrow> Sim" where
  "applyTokenEffect BTC timestamp s = pushEffect BTC (timestamp + 10000) s"
| "applyTokenEffect ETH timestamp s = pushEffect ETH (timestamp + 5000) s"
| "applyTokenEffect TAO timestamp s = pushEffect TAO (timestamp + 5000) s"
| "applyTokenEffect HBAR timestamp s = pushEffect HBAR (timestamp + 10000) s"
| "applyTokenEffect BCH timestamp s = s"
| "applyTokenEffect SOL timestamp s = pushEffect SOL (timestamp + SOL_EFFECT_DURATION) s"
| "applyTokenEffect NONE timestamp s = s"

subsection \<open>The end of a run\<close>

text \<open>
  The block that follows \<open>setGameState(GameState.GAME_OVER)\<close>; the source has it twice, at
  the gate collision and at the bounds check. \<open>raiseHighest\<close> is the \<open>forEach\<close> over the
  keys: it returns the updated copy and the flag \<open>countsUpdated\<close>.
\<close>

fun raiseHighest :: "TokenCounts \<Rightarrow> TokenType list \<Rightarrow> TokenCounts \<times> bool \<Rightarrow> TokenCounts \<times> bool" where
  "raiseHighest cur [] acc = acc"
| "raiseHighest cur (k # ks) (newHighestCounts, countsUpdated) =
     (if countOf cur k > countOf newHighestCounts k
      then raiseHighest cur ks (setCount newHighestCounts k (countOf cur k), True)
      else raiseHighest cur ks (newHighestCounts, countsUpdated))"

definition endRun :: "Sim \<Rightarrow> Sim" where
  "endRun s =
     (let s1 = s\<lparr>st_gameState := GAME_OVER\<rparr>;
          s2 = (if currentScore s1 > highScore s1
                then s1\<lparr>st_highScore := currentScore s1, ls_highScore := Some (currentScore s1)\<rparr>
                else s1);
          (newHighestCounts, countsUpdated) =
             raiseHighest (tokenCountsRef s2) countKeys (highestTokenCounts s2, False);
          s3 = (if countsUpdated
                then s2\<lparr>st_highestTokenCounts := newHighestCounts,
                        ls_highestTokenCounts := Some newHighestCounts\<rparr>
                else s2)
      in s3\<lparr>st_tokenCounts := tokenCountsRef s3\<rparr>)"

subsection \<open>One gate in one frame\<close>

text \<open>
  The callback of \<open>gates.filter\<close>. It mutates the gate and the closure's variables, so the
  model returns the verdict of the filter, the gate as mutated and the state as mutated.
  The pieces are named after the source's comments and variables.
\<close>

definition actualGateGap :: "Sim \<Rightarrow> Gate \<Rightarrow> real" where
  "actualGateGap s g =
     (if btcEffectActive s then baseGateGap g * (1 + GATE_GAP_INCREASE_PERCENT / 100)
      else baseGateGap g)"

definition overlapsLine :: "Gate \<Rightarrow> bool" where
  "overlapsLine g \<longleftrightarrow> gx g \<le> LINE_X_POSITION \<and> gx g + GATE_WIDTH \<ge> LINE_X_POSITION"

definition collision :: "Sim \<Rightarrow> Gate \<Rightarrow> bool" where
  "collision s g \<longleftrightarrow>
     \<not> solEffectActive s \<and>
     (lineY s \<le> topHeight g \<or> lineY s \<ge> topHeight g + actualGateGap s g)"

definition tokenY :: "Sim \<Rightarrow> Gate \<Rightarrow> real" where
  "tokenY s g = topHeight g + actualGateGap s g / 2"

definition tokenInReach :: "Sim \<Rightarrow> Gate \<Rightarrow> bool" where
  "tokenInReach s g \<longleftrightarrow>
     tokenType g \<noteq> NONE \<and> \<bar>lineY s - tokenY s g\<bar> < TOKEN_COLLECTION_RADIUS"

text \<open>The statements of the branch that collects a token, in the source's order.\<close>

definition collectToken :: "real \<Rightarrow> Gate \<Rightarrow> Sim \<Rightarrow> Gate \<times> Sim" where
  "collectToken timestamp g s =
     (let s1 = applyTokenEffect (tokenType g) timestamp s;
          s2 = s1\<lparr>screenFlashTime := timestamp\<rparr>;
          k = tokenType g;
          s3 = s2\<lparr>tokenCountsRef := setCount (tokenCountsRef s2) k (countOf (tokenCountsRef s2) k + 1)\<rparr>;
          s4 = s3\<lparr>st_tokenCounts := setCount (st_tokenCounts s3) k (countOf (st_tokenCounts s3) k + 1)\<rparr>;
          s5 = (if tokenType g = BCH
                then s4\<lparr>chaosMode := True, chaosModeEndTime := timestamp + BCH_CHAOS_DURATION\<rparr>
                else s4)
      in (g\<lparr>tokenType := NONE\<rparr>, s5))"

text \<open>The passage check with the difficulty rule.\<close>

definition markPassed :: "Gate \<Rightarrow> Sim \<Rightarrow> Gate \<times> Sim" where
  "markPassed g s =
     (if \<not> hasPassed g \<and> gx g + GATE_WIDTH < LINE_X_POSITION then
        (let s1 = s\<lparr>gatesPassed := gatesPassed s + 1\<rparr>;
             s2 = s1\<lparr>currentScore := gatesPassed s1, st_score := gatesPassed s1\<rparr>;
             s3 = (if gatesPassed s2 mod DIFFICULTY_GATE_THRESHOLD = 0
                   then (let lvl = difficultyLevel s2 + 1
                         in s2\<lparr>difficultyLevel := lvl,
                               baseSpeed := GATE_SPEED * (1 + (real lvl - 1) * DIFFICULTY_INCREASE)\<rparr>)
                   else s2)
         in (g\<lparr>hasPassed := True\<rparr>, s3))
      else (g, s))"

text \<open>
  The callback's first statements: the gate moves left by the current speed, the rightmost
  position is tracked and the flashing flag is set.
\<close>

definition advanceGate :: "real \<Rightarrow> Gate \<Rightarrow> Sim \<Rightarrow> Gate \<times> Sim" where
  "advanceGate timestamp g0 s0 =
     (let g1 = g0\<lparr>gx := gx g0 - currentSpeed s0\<rparr>;
          s1 = (if gx g1 > lastGateX s0 - GATE_WIDTH then s0\<lparr>lastGateX := gx g1\<rparr> else s0);
          g2 = g1\<lparr>isFlashing := (if flashingGates s1 then \<lfloor>timestamp / 200\<rfloor> mod 2 = 0 else False)\<rparr>
      in (g2, s1))"

definition gateCallback :: "real \<Rightarrow> Gate \<Rightarrow> Sim \<Rightarrow> bool \<times> Gate \<times> Sim" where
  "gateCallback timestamp g0 s0 =
     (let (g2, s1) = advanceGate timestamp g0 s0
      in if overlapsLine g2 \<and> collision s1 g2 then (False, g2, endRun s1)
         else
           (let (g3, s3) = (if overlapsLine g2 \<and> tokenInReach s1 g2
                            then collectToken timestamp g2 s1 else (g2, s1));
                (g4, s4) = markPassed g3 s3
            in (gx g4 + GATE_WIDTH > 0, g4, s4)))"

text \<open>\<open>gates.filter(callback)\<close>: the gates in order, each with the state its predecessors left.\<close>

fun filterGates :: "real \<Rightarrow> Gate list \<Rightarrow> Sim \<Rightarrow> Gate list \<times> Sim" where
  "filterGates timestamp [] s = ([], s)"
| "filterGates timestamp (g # gs) s =
     (case gateCallback timestamp g s of
        (keep, g', s') \<Rightarrow>
          (case filterGates timestamp gs s' of
             (gs', s'') \<Rightarrow> ((if keep then g' # gs' else gs'), s'')))"

subsection \<open>One frame\<close>

definition applyGravity :: "Sim \<Rightarrow> Sim" where
  "applyGravity s =
     (if \<not> solEffectActive s then s\<lparr>lineVelocity := lineVelocity s + GRAVITY\<rparr> else s)"

definition applyChaos :: "real \<Rightarrow> real \<Rightarrow> Sim \<Rightarrow> Sim" where
  "applyChaos timestamp roll s =
     (if chaosMode s \<and> timestamp < chaosModeEndTime s
      then s\<lparr>lineVelocity := lineVelocity s + (roll - 5 / 10) * 2\<rparr>
      else if chaosMode s \<and> timestamp \<ge> chaosModeEndTime s
      then s\<lparr>chaosMode := False\<rparr>
      else s)"

definition integrate :: "Sim \<Rightarrow> Sim" where
  "integrate s =
     (let s1 = s\<lparr>lineY := lineY s + lineVelocity s\<rparr>
      in s1\<lparr>isAscending := (if lineVelocity s1 > 0 then False else True)\<rparr>)"

definition spawnIfDue :: "Rolls \<Rightarrow> Sim \<Rightarrow> Sim" where
  "spawnIfDue r s =
     (if lastGateX s \<le> GAME_WIDTH - GATE_DISTANCE then initializeGate r s else s)"

definition updateGates :: "real \<Rightarrow> Sim \<Rightarrow> Sim" where
  "updateGates timestamp s =
     (case filterGates timestamp (gates s) s of (gs, s') \<Rightarrow> s'\<lparr>gates := gs\<rparr>)"

definition outOfBounds :: "Sim \<Rightarrow> bool" where
  "outOfBounds s \<longleftrightarrow> lineY s < 0 \<or> lineY s > GAME_HEIGHT"

definition boundsCheck :: "Sim \<Rightarrow> Sim" where
  "boundsCheck s =
     (if outOfBounds s then (endRun s)\<lparr>frameRequested := False\<rparr>
      else s\<lparr>frameRequested := True\<rparr>)"

text \<open>
  \<open>velocityStep\<close> is the frame up to the integration: effects, gravity, chaos. \<open>integrate\<close>
  is \<open>lineY += lineVelocity\<close> with the direction flag, and \<open>gameLoop\<close> is the whole frame
  callback.
\<close>

definition velocityStep :: "real \<Rightarrow> Rolls \<Rightarrow> Sim \<Rightarrow> Sim" where
  "velocityStep timestamp r s =
     applyChaos timestamp (chaosRoll r) (applyGravity (processEffects timestamp s))"

definition gameLoop :: "real \<Rightarrow> Rolls \<Rightarrow> Sim \<Rightarrow> Sim" where
  "gameLoop timestamp r s =
     boundsCheck (updateGates timestamp (spawnIfDue r (integrate (velocityStep timestamp r s))))"

subsection \<open>The component: mounting, starting a run, events\<close>

text \<open>
  \<open>mount\<close> is the component after its first render and the effect that reads localStorage
  (a stored value is taken over when present). \<open>handleStartGame\<close> is the button handler;
  \<open>startLoop\<close> is the effect body that React runs once the game state is PLAYING: it
  captures the React state, initialises the loop's variables, spawns the first gate and
  requests the first frame.
\<close>

definition mount :: "nat option \<Rightarrow> TokenCounts option \<Rightarrow> Sim" where
  "mount savedHighScore savedHighestTokenCounts =
     \<lparr>lineY = GAME_HEIGHT / 2, lineVelocity = 0, isAscending = False, gates = [],
      lastGateX = GAME_WIDTH, gatesPassed = 0, currentScore = 0, baseSpeed = GATE_SPEED,
      currentSpeed = GATE_SPEED, activeEffects = [], isGoldMode = False,
      flashingGates = False, btcEffectActive = False, solEffectActive = False,
      screenFlashTime = 0, chaosMode = False, chaosModeEndTime = 0, lastTokenType = NONE,
      difficultyLevel = 1,
      highScore = (case savedHighScore of Some n \<Rightarrow> n | None \<Rightarrow> 0),
      highestTokenCounts = (case savedHighestTokenCounts of Some c \<Rightarrow> c | None \<Rightarrow> zeroCounts),
      st_gameState = START, st_score = 0,
      st_highScore = (case savedHighScore of Some n \<Rightarrow> n | None \<Rightarrow> 0),
      st_tokenCounts = zeroCounts,
      st_highestTokenCounts = (case savedHighestTokenCounts of Some c \<Rightarrow> c | None \<Rightarrow> zeroCounts),
      tokenCountsRef = zeroCounts,
      ls_highScore = savedHighScore, ls_highestTokenCounts = savedHighestTokenCounts,
      frameRequested = False\<rparr>"

definition handleStartGame :: "Sim \<Rightarrow> Sim" where
  "handleStartGame s =
     s\<lparr>st_gameState := PLAYING, st_score := 0, st_tokenCounts := zeroCounts,
       tokenCountsRef := zeroCounts\<rparr>"

definition startLoop :: "Rolls \<Rightarrow> Sim \<Rightarrow> Sim" where
  "startLoop r s =
     (initializeGate r
        (s\<lparr>lineY := GAME_HEIGHT / 2, lineVelocity := 0, isAscending := False, gates := [],
           lastGateX := GAME_WIDTH, gatesPassed := 0, currentScore := 0,
           baseSpeed := GATE_SPEED, currentSpeed := GATE_SPEED, activeEffects := [],
           isGoldMode := False, flashingGates := False, btcEffectActive := False,
           solEffectActive := False, screenFlashTime := 0, chaosMode := False,
           chaosModeEndTime := 0, lastTokenType := NONE, difficultyLevel := 1,
           highScore := st_highScore s, highestTokenCounts := st_highestTokenCounts s\<rparr>))
       \<lparr>frameRequested := True\<rparr>"

text \<open>
  What can happen to the mounted component: the start button (shown in the states START and
  GAME_OVER only), an impulse (the listeners exist only while the effect is active, that is
  in the state PLAYING), and a frame (the loop runs only in the state PLAYING: the effect
  returns at once otherwise, and its cleanup cancels the outstanding frame when the state
  changes).
\<close>

datatype Event = StartGame Rolls | Impulse | Frame real Rolls

fun step :: "Event \<Rightarrow> Sim \<Rightarrow> Sim" where
  "step (StartGame r) s =
     (if st_gameState s \<noteq> PLAYING then startLoop r (handleStartGame s) else s)"
| "step Impulse s = (if st_gameState s = PLAYING then handleInput s else s)"
| "step (Frame timestamp r) s =
     (if st_gameState s = PLAYING then gameLoop timestamp r s else s)"

fun run :: "Event list \<Rightarrow> Sim \<Rightarrow> Sim" where
  "run [] s = s"
| "run (e # es) s = run es (step e s)"

inductive reachable :: "Sim \<Rightarrow> bool" where
  reachable_mount: "reachable (mount hs hc)"
| reachable_step: "reachable s \<Longrightarrow> reachable (step e s)"

section \<open>Notions the properties are stated with\<close>

subsection \<open>The stored best counts\<close>

text \<open>
  The best counts as localStorage holds them, read the way the mount effect reads them: an
  absent entry leaves the initial state, all zero.
\<close>

definition persistedBest :: "Sim \<Rightarrow> TokenCounts" where
  "persistedBest s = (case ls_highestTokenCounts s of Some c \<Rightarrow> c | None \<Rightarrow> zeroCounts)"

text \<open>
  The invariant that ties the stored best counts, the React state and the value the loop's
  closure captured: storage and state agree; the captured value is at most the state; the
  state is at most the larger of the captured value and the run's counter; while the game
  state is PLAYING the captured value is the state.
\<close>

definition bestInv :: "Sim \<Rightarrow> bool" where
  "bestInv s \<longleftrightarrow>
     persistedBest s = st_highestTokenCounts s \<and>
     (\<forall>k. countOf (highestTokenCounts s) k \<le> countOf (st_highestTokenCounts s) k) \<and>
     (\<forall>k. countOf (st_highestTokenCounts s) k \<le>
            max (countOf (highestTokenCounts s) k) (countOf (tokenCountsRef s) k)) \<and>
     (st_gameState s = PLAYING \<longrightarrow> highestTokenCounts s = st_highestTokenCounts s)"

subsection \<open>The difficulty schedule in closed form\<close>

text \<open>
  The schedule as the specification words it, to be compared with what the loop computes
  step by step: the level after \<open>n\<close> passages, one more for every full threshold, and the
  base speed at a level, \<open>initialSpeed * (1 + (level - 1) * increment)\<close>.
\<close>

definition levelAfter :: "nat \<Rightarrow> nat" where
  "levelAfter n = 1 + n div DIFFICULTY_GATE_THRESHOLD"

definition speedAtLevel :: "nat \<Rightarrow> real" where
  "speedAtLevel l = GATE_SPEED * (1 + (real l - 1) * DIFFICULTY_INCREASE)"

text \<open>The loop is on schedule when its level and base speed are the ones of the closed form.\<close>

definition onSchedule :: "Sim \<Rightarrow> bool" where
  "onSchedule s \<longleftrightarrow>
     difficultyLevel s = levelAfter (gatesPassed s) \<and> baseSpeed s = speedAtLevel (difficultyLevel s)"

subsection \<open>Successive spawns\<close>

text \<open>
  The token kinds of successive spawns. Both spawn sites do
  \<open>tokenType = getRandomTokenType(); lastTokenType = tokenType\<close>, and nothing else assigns
  \<open>lastTokenType\<close>; \<open>spawnKinds\<close> is that chain for a list of the two random numbers each
  spawn draws, starting from a given last kind.
\<close>

fun spawnKinds :: "(real \<times> real) list \<Rightarrow> TokenType \<Rightarrow> TokenType list" where
  "spawnKinds [] lastT = []"
| "spawnKinds ((tRoll, iRoll) # rs) lastT =
     (let k = getRandomTokenType tRoll iRoll lastT in k # spawnKinds rs k)"

subsection \<open>Speed under several effects\<close>

text \<open>
  \<open>liveKinds\<close>: the kinds of the effects that \<open>processEffects\<close> keeps at a timestamp, in
  the order of the list (effects are appended when collected and the filter keeps the order,
  so this is the order of collection). \<open>speedAffecting\<close> and \<open>speedFactor\<close> read off the
  switch of \<open>processEffects\<close> which kinds assign \<open>currentSpeed\<close> and with which multiple
  of the base speed.
\<close>

definition liveKinds :: "real \<Rightarrow> Sim \<Rightarrow> TokenType list" where
  "liveKinds timestamp s = map etype (filter (\<lambda>effect. endTime effect > timestamp) (activeEffects s))"

fun speedAffecting :: "TokenType \<Rightarrow> bool" where
  "speedAffecting ETH = True"
| "speedAffecting BTC = True"
| "speedAffecting SOL = True"
| "speedAffecting _ = False"

fun speedFactor :: "TokenType \<Rightarrow> real" where
  "speedFactor ETH = 5 / 10"
| "speedFactor BTC = BTC_SPEED_BOOST"
| "speedFactor SOL = SOL_SPEED_BOOST"
| "speedFactor _ = 1"

text \<open>
  The rule as the specification words it: among the active kinds that set the speed, the
  last one in the declaration order of the enumeration wins. \<open>speedByListOrder\<close> is the
  same with the order of the active list in place of the declaration order.
\<close>

definition declarationOrder :: "TokenType list" where
  "declarationOrder = [NONE, BTC, ETH, TAO, BCH, HBAR, SOL]"

definition specSpeedByDeclarationOrder :: "real \<Rightarrow> TokenType list \<Rightarrow> real" where
  "specSpeedByDeclarationOrder base kinds =
     (case filter (\<lambda>k. k \<in> set kinds \<and> speedAffecting k) declarationOrder of
        [] \<Rightarrow> base
      | ks \<Rightarrow> base * speedFactor (last ks))"

definition speedByListOrder :: "real \<Rightarrow> TokenType list \<Rightarrow> real" where
  "speedByListOrder base kinds =
     (case filter speedAffecting kinds of
        [] \<Rightarrow> base
      | ks \<Rightarrow> base * speedFactor (last ks))"

section \<open>Concrete states and inputs\<close>

text \<open>
  States and inputs at which the theorems below are evaluated. \<open>noRolls\<close> draws no token
  and leaves chaos without effect; with it a new gate opens from 200 to 350. \<open>edgeState y\<close>
  is a run in progress with the player at height \<open>y\<close> and no gate; \<open>contactState y\<close> has
  one such gate whose left edge is at the player's column, and \<open>tokenState k y\<close> the same
  gate with a token of kind \<open>k\<close> (its centre is at height 275). \<open>freshRun\<close> is the
  component right after the start button, on a first visit (nothing stored).
\<close>

definition noRolls :: Rolls where
  "noRolls = \<lparr>chaosRoll = 1 / 2, varianceRoll = 1 / 2, heightRoll = 1 / 2, narrowRoll = 1 / 2,
              tokenRoll = 1 / 2, indexRoll = 0\<rparr>"

definition edgeState :: "real \<Rightarrow> Sim" where
  "edgeState y = (mount None None)\<lparr>st_gameState := PLAYING, lineY := y\<rparr>"

definition contactGate :: Gate where
  "contactGate = \<lparr>gx = 100, topHeight = 200, hasPassed = False, tokenType = NONE,
                   baseGateGap = 150, isFlashing = False\<rparr>"

definition contactState :: "real \<Rightarrow> Sim" where
  "contactState y = (mount None None)\<lparr>st_gameState := PLAYING, lineY := y, gates := [contactGate]\<rparr>"


definition freshRun :: Sim where
  "freshRun = step (StartGame noRolls) (mount None None)"

text \<open>
  \<open>spawnRolls\<close>: the draws of four spawns. \<open>overlapState\<close>: a slow (ETH) token collected
  at time 0 and a widen-gap (BTC) token at time 1300. \<open>chaosSolState\<close>: a chaos (BCH) token
  collected at time 1000 and a frictionless (SOL) token at time 2400; \<open>chaosRolls\<close> draws
  0.75 for the chaos perturbation.
\<close>

definition spawnRolls :: "(real \<times> real) list" where
  "spawnRolls = [(1 / 10, 0), (1 / 2, 0), (1 / 10, 0), (1 / 10, 0)]"

definition overlapState :: Sim where
  "overlapState =
     (edgeState 300)\<lparr>activeEffects := [\<lparr>etype = ETH, endTime = 5000\<rparr>,
                                        \<lparr>etype = BTC, endTime = 11300\<rparr>]\<rparr>"

definition chaosSolState :: Sim where
  "chaosSolState =
     (edgeState 300)\<lparr>activeEffects := [\<lparr>etype = SOL, endTime = 7400\<rparr>],
                      chaosMode := True, chaosModeEndTime := 4000\<rparr>"

definition chaosRolls :: Rolls where
  "chaosRolls = noRolls\<lparr>chaosRoll := 3 / 4\<rparr>"

section \<open>Concrete runs and the machine that follows them\<close>

text \<open>
  A concrete run, to show that the thresholds of the difficulty schedule are reached. From the
  fresh run the player fires an impulse every 49 frames, which takes the player from height
  300 up to 234 and back to 300; frames are 16 ms apart and draw \<open>noRolls\<close>, so every gate
  spawned during the run opens from 200 to 350 and carries no token. \<open>frames k t\<close> are
  \<open>k\<close> frames from timestamp \<open>t\<close>, \<open>hops k t\<close> are \<open>k\<close> impulses, each followed by 49
  frames.
\<close>

fun frames :: "nat \<Rightarrow> real \<Rightarrow> Event list" where
  "frames 0 t = []"
| "frames (Suc k) t = Frame t noRolls # frames k (t + 16)"

fun hops :: "nat \<Rightarrow> real \<Rightarrow> Event list" where
  "hops 0 t = []"
| "hops (Suc k) t = Impulse # frames 49 t @ hops k (t + 16 * 49)"

text \<open>
  A run is followed on a small machine whose state holds what changes in such a run: the
  player's height and velocity, the gates (position, passed flag, and whether the gate
  carries an HBAR token), the position of the last gate, the number of passages and the
  number of tokens collected, all positions in thousandths (\<open>milli\<close>). Every gate opens
  from 200 to 350, so a token's centre is at 275 and \<open>cruiseTake\<close> says that the player
  collects it. The machine stops (\<open>None\<close>) where the player would hit a gate or leave the
  playfield, or after 30 passages. \<open>cruiseGates\<close> is the pass over the gates,
  \<open>cruiseFrame\<close> one frame, \<open>cruiseImpulse\<close> an impulse.
\<close>

type_synonym CruiseGates = "((int \<times> bool \<times> bool) list \<times> int \<times> int \<times> int) option"
type_synonym Cruise = "int \<times> int \<times> (int \<times> bool \<times> bool) list \<times> int \<times> int \<times> int"

definition milli :: "int \<Rightarrow> real" where
  "milli a = real_of_int a / 1000"

fun cruiseKeep :: "int \<Rightarrow> bool \<Rightarrow> bool \<Rightarrow> CruiseGates \<Rightarrow> CruiseGates" where
  "cruiseKeep x' p' g' None = None"
| "cruiseKeep x' p' g' (Some (gs', lx', n', h')) =
     Some ((if - 50000 < x' then (x', p', g') # gs' else gs'), lx', n', h')"

definition cruiseTake :: "int \<Rightarrow> int \<Rightarrow> bool \<Rightarrow> bool" where
  "cruiseTake x' y g \<longleftrightarrow> g \<and> 50000 \<le> x' \<and> x' \<le> 100000 \<and> 225000 < y \<and> y < 325000"

fun cruiseGates :: "int \<Rightarrow> int \<Rightarrow> (int \<times> bool \<times> bool) list \<Rightarrow> int \<Rightarrow> int \<Rightarrow> int \<Rightarrow> CruiseGates" where
  "cruiseGates sp y [] lx n h = Some ([], lx, n, h)"
| "cruiseGates sp y ((x, p, g) # gs) lx n h =
     (if 50000 \<le> x - sp \<and> x - sp \<le> 100000 \<and> (y \<le> 200000 \<or> 350000 \<le> y) then None
      else cruiseKeep (x - sp) (p \<or> x - sp < 50000) (g \<and> \<not> cruiseTake (x - sp) y g)
             (cruiseGates sp y gs (if lx - 50000 < x - sp then x - sp else lx)
                (if \<not> p \<and> x - sp < 50000 then n + 1 else n)
                (if cruiseTake (x - sp) y g then h + 1 else h)))"

fun cruiseFramed :: "int \<Rightarrow> int \<Rightarrow> CruiseGates \<Rightarrow> Cruise option" where
  "cruiseFramed y' v' None = None"
| "cruiseFramed y' v' (Some (gs', lx', n', h')) = Some (y', v', gs', lx', n', h')"

definition cruisePass :: "int \<Rightarrow> (int \<times> bool \<times> bool) list \<Rightarrow> int \<Rightarrow> int \<Rightarrow> int \<Rightarrow> CruiseGates" where
  "cruisePass y' gs lx n h =
     cruiseGates (if n < 15 then 2530 else 2783) y'
       (if lx \<le> 600000 then gs @ [(800000, False, False)] else gs)
       (if lx \<le> 600000 then 800000 else lx) n h"

definition cruiseFall :: "int \<Rightarrow> int \<Rightarrow> (int \<times> bool \<times> bool) list \<Rightarrow> int \<Rightarrow> int \<Rightarrow> int \<Rightarrow> Cruise option" where
  "cruiseFall y' v' gs lx n h =
     (if y' < 0 \<or> 600000 < y' \<or> 30 \<le> n then None
      else cruiseFramed y' v' (cruisePass y' gs lx n h))"

definition cruiseVel :: "int \<Rightarrow> int \<Rightarrow> (int \<times> bool \<times> bool) list \<Rightarrow> int \<Rightarrow> int \<Rightarrow> int \<Rightarrow> Cruise option" where
  "cruiseVel v' y gs lx n h = cruiseFall (y + v') v' gs lx n h"

fun cruiseFrame :: "Cruise \<Rightarrow> Cruise option" where
  "cruiseFrame (y, v, gs, lx, n, h) = cruiseVel (v + 220) y gs lx n h"

fun cruiseImpulse :: "Cruise \<Rightarrow> Cruise option" where
  "cruiseImpulse (y, v, gs, lx, n, h) = Some (y, - 5500, gs, lx, n, h)"

text \<open>
  The frame in which the player leaves the playfield without touching a gate: \<open>cruiseExit\<close>
  gives the number of collected tokens the run ends with, and \<open>None\<close> for any other frame.
\<close>

fun cruiseCount :: "CruiseGates \<Rightarrow> int option" where
  "cruiseCount None = None"
| "cruiseCount (Some (gs', lx', n', h')) = Some h'"

definition cruiseOut :: "int \<Rightarrow> (int \<times> bool \<times> bool) list \<Rightarrow> int \<Rightarrow> int \<Rightarrow> int \<Rightarrow> int option" where
  "cruiseOut y' gs lx n h =
     (if (y' < 0 \<or> 600000 < y') \<and> n < 30 then cruiseCount (cruisePass y' gs lx n h) else None)"

fun cruiseExit :: "Cruise \<Rightarrow> int option" where
  "cruiseExit (y, v, gs, lx, n, h) = cruiseOut (y + (v + 220)) gs lx n h"

text \<open>
  \<open>tracks s c\<close>: the component in state \<open>s\<close> is a run in progress and on schedule, with no
  effect active but the gold mode of HBAR tokens, whose player, gates and counter of collected
  tokens are those of the machine state \<open>c\<close>. \<open>midFrame\<close> is the same for the state inside
  the pass over the gates.
\<close>

definition cruiseGate :: "int \<times> bool \<times> bool \<Rightarrow> Gate" where
  "cruiseGate xpg = \<lparr>gx = milli (fst xpg), topHeight = 200, hasPassed = fst (snd xpg),
               tokenType = (if snd (snd xpg) then HBAR else NONE), baseGateGap = 150,
               isFlashing = False\<rparr>"

definition goldOnly :: "TokenEffect list \<Rightarrow> bool" where
  "goldOnly es \<longleftrightarrow> list_all (\<lambda>e. etype e = HBAR) es"

fun tracks :: "Sim \<Rightarrow> Cruise \<Rightarrow> bool" where
  "tracks s (y, v, gs, lx, n, h) \<longleftrightarrow>
     st_gameState s = PLAYING \<and> lineY s = milli y \<and> lineVelocity s = milli v \<and>
     gates s = map cruiseGate gs \<and> lastGateX s = milli lx \<and> 0 \<le> n \<and> gatesPassed s = nat n \<and>
     onSchedule s \<and> goldOnly (activeEffects s) \<and> \<not> chaosMode s \<and>
     0 \<le> h \<and> tokenCountsRef s = zeroCounts\<lparr>hbar := nat h\<rparr>"

definition midFrame :: "Sim \<Rightarrow> int \<Rightarrow> int \<Rightarrow> int \<Rightarrow> int \<Rightarrow> int \<Rightarrow> int \<Rightarrow> bool" where
  "midFrame u y v sp lx n h \<longleftrightarrow>
     st_gameState u = PLAYING \<and> lineY u = milli y \<and>
     lineVelocity u = milli v \<and> currentSpeed u = milli sp \<and>
     lastGateX u = milli lx \<and> 0 \<le> n \<and> gatesPassed u = nat n \<and> onSchedule u \<and>
     \<not> solEffectActive u \<and> \<not> btcEffectActive u \<and> \<not> flashingGates u \<and>
     goldOnly (activeEffects u) \<and> \<not> chaosMode u \<and>
     0 \<le> h \<and> tokenCountsRef u = zeroCounts\<lparr>hbar := nat h\<rparr>"

text \<open>
  Frames and hops of the machine in sequence, by number, and as the fixed compositions that
  are evaluated: 7 frames, 49 frames, one hop, 4 hops, 28 hops.
\<close>

definition cruiseSeq :: "(Cruise \<Rightarrow> Cruise option) \<Rightarrow> (Cruise \<Rightarrow> Cruise option) \<Rightarrow> Cruise \<Rightarrow> Cruise option" where
  "cruiseSeq f g c = Option.bind (f c) g"

primrec cruiseFrames :: "nat \<Rightarrow> Cruise \<Rightarrow> Cruise option" where
  "cruiseFrames 0 = Some"
| "cruiseFrames (Suc k) = cruiseSeq cruiseFrame (cruiseFrames k)"

primrec cruiseHops :: "nat \<Rightarrow> Cruise \<Rightarrow> Cruise option" where
  "cruiseHops 0 = Some"
| "cruiseHops (Suc k) = cruiseSeq (cruiseSeq cruiseImpulse (cruiseFrames 49)) (cruiseHops k)"

definition cruise7 :: "Cruise \<Rightarrow> Cruise option" where
  "cruise7 = cruiseSeq cruiseFrame (cruiseSeq cruiseFrame (cruiseSeq cruiseFrame (cruiseSeq cruiseFrame (cruiseSeq cruiseFrame (cruiseSeq cruiseFrame cruiseFrame)))))"

definition cruise49 :: "Cruise \<Rightarrow> Cruise option" where
  "cruise49 = cruiseSeq cruise7 (cruiseSeq cruise7 (cruiseSeq cruise7 (cruiseSeq cruise7 (cruiseSeq cruise7 (cruiseSeq cruise7 cruise7)))))"

definition cruiseHop :: "Cruise \<Rightarrow> Cruise option" where
  "cruiseHop = cruiseSeq cruiseImpulse cruise49"

definition cruiseHop4 :: "Cruise \<Rightarrow> Cruise option" where
  "cruiseHop4 = cruiseSeq cruiseHop (cruiseSeq cruiseHop (cruiseSeq cruiseHop cruiseHop))"

definition cruiseHop28 :: "Cruise \<Rightarrow> Cruise option" where
  "cruiseHop28 = cruiseSeq cruiseHop4 (cruiseSeq cruiseHop4 (cruiseSeq cruiseHop4 (cruiseSeq cruiseHop4 (cruiseSeq cruiseHop4 (cruiseSeq cruiseHop4 cruiseHop4)))))"

definition cruiseStart :: Cruise where
  "cruiseStart = (300000, 0, [(800000, False, False)], 800000, 0, 0)"

section \<open>A run that collects a token and a run that collects none\<close>

text \<open>
  Two runs of a returning visitor, whose stored high score is 7 and whose stored best counts
  are \<open>storedBest\<close>: one BTC and three ETH. In \<open>goldRun\<close> the first gate carries an HBAR
  token (\<open>goldRolls\<close> draws it). With \<open>goldPlay\<close> the player hops five times, fires a sixth
  impulse and then falls: the token is collected in the frame at 4416 ms, the 277th, and
  after the 327 frames of \<open>goldPlay\<close> the frame at 5232 ms takes the player below the
  playfield. In \<open>idleRun\<close> no gate carries a token; the player falls for the 51 frames of
  \<open>idlePlay\<close> and the frame at 816 ms ends the run.
\<close>

definition storedBest :: TokenCounts where
  "storedBest = zeroCounts\<lparr>btc := 1, eth := 3\<rparr>"

definition goldRolls :: Rolls where
  "goldRolls = noRolls\<lparr>tokenRoll := 1 / 10, indexRoll := 7 / 10\<rparr>"

definition goldRun :: Sim where
  "goldRun = step (StartGame goldRolls) (mount (Some 7) (Some storedBest))"

definition goldPlay :: "Event list" where
  "goldPlay = hops 5 0 @ Impulse # frames 82 3920"

definition idleRun :: Sim where
  "idleRun = step (StartGame noRolls) (mount (Some 7) (Some storedBest))"

definition idlePlay :: "Event list" where
  "idlePlay = frames 51 0"

definition goldStart :: Cruise where
  "goldStart = (300000, 0, [(800000, False, True)], 800000, 0, 0)"

definition cruise82 :: "Cruise \<Rightarrow> Cruise option" where
  "cruise82 = cruiseSeq cruise49 (cruiseSeq cruise7 (cruiseSeq cruise7 (cruiseSeq cruise7 (cruiseSeq cruise7 (cruiseSeq cruiseFrame (cruiseSeq cruiseFrame (cruiseSeq cruiseFrame (cruiseSeq cruiseFrame cruiseFrame))))))))"

definition cruise51 :: "Cruise \<Rightarrow> Cruise option" where
  "cruise51 = cruiseSeq cruise49 (cruiseSeq cruiseFrame cruiseFrame)"

definition cruiseGold :: "Cruise \<Rightarrow> Cruise option" where
  "cruiseGold = cruiseSeq cruiseHop4 (cruiseSeq cruiseHop (cruiseSeq cruiseImpulse cruise82))"

section \<open>Evaluating a frame\<close>

text \<open>
  The constants, and the definitions to unfold when a frame is evaluated at a concrete state.
\<close>

lemmas game_constants =
  GAME_WIDTH_def GAME_HEIGHT_def GATE_SPEED_def DIFFICULTY_INCREASE_def
  DIFFICULTY_GATE_THRESHOLD_def BTC_SPEED_BOOST_def SOL_SPEED_BOOST_def GATE_WIDTH_def
  GATE_DISTANCE_def INITIAL_GATE_GAP_def NARROW_GATE_GAP_def GATE_GAP_INCREASE_PERCENT_def
  LINE_X_POSITION_def BOUNCE_VELOCITY_def GRAVITY_def TOKEN_COLLECTION_RADIUS_def
  BCH_CHAOS_DURATION_def SOL_EFFECT_DURATION_def MIN_VERTICAL_VARIANCE_def
  MAX_VERTICAL_VARIANCE_def

lemmas frame_defs =
  gameLoop_def velocityStep_def processEffects_def applyGravity_def applyChaos_def
  integrate_def spawnIfDue_def initializeGate_def newTopHeight_def
  getRandomVerticalVariance_def getRandomTokenType_def possibleTokens_def updateGates_def
  gateCallback_def advanceGate_def overlapsLine_def collision_def actualGateGap_def
  tokenInReach_def tokenY_def collectToken_def pushEffect_def markPassed_def boundsCheck_def
  outOfBounds_def endRun_def countKeys_def zeroCounts_def Let_def

section \<open>What each operation leaves alone\<close>

text \<open>
  The operations inside a frame assign few of the closure's variables. These lemmas record,
  for each operation, the fields the later proofs read back.
\<close>

lemma applyTokenEffect_keeps [simp]:
  "lineY (applyTokenEffect k t s) = lineY s"
  "gatesPassed (applyTokenEffect k t s) = gatesPassed s"
  "difficultyLevel (applyTokenEffect k t s) = difficultyLevel s"
  "baseSpeed (applyTokenEffect k t s) = baseSpeed s"
  "currentSpeed (applyTokenEffect k t s) = currentSpeed s"
  "solEffectActive (applyTokenEffect k t s) = solEffectActive s"
  "btcEffectActive (applyTokenEffect k t s) = btcEffectActive s"
  "flashingGates (applyTokenEffect k t s) = flashingGates s"
  "lastGateX (applyTokenEffect k t s) = lastGateX s"
  "lastTokenType (applyTokenEffect k t s) = lastTokenType s"
  "tokenCountsRef (applyTokenEffect k t s) = tokenCountsRef s"
  "st_tokenCounts (applyTokenEffect k t s) = st_tokenCounts s"
  "highestTokenCounts (applyTokenEffect k t s) = highestTokenCounts s"
  "st_highestTokenCounts (applyTokenEffect k t s) = st_highestTokenCounts s"
  "ls_highestTokenCounts (applyTokenEffect k t s) = ls_highestTokenCounts s"
  "st_gameState (applyTokenEffect k t s) = st_gameState s"
  by (cases k; simp add: pushEffect_def)+

lemma endRun_keeps [simp]:
  "lineY (endRun s) = lineY s"
  "gatesPassed (endRun s) = gatesPassed s"
  "difficultyLevel (endRun s) = difficultyLevel s"
  "baseSpeed (endRun s) = baseSpeed s"
  "currentSpeed (endRun s) = currentSpeed s"
  "solEffectActive (endRun s) = solEffectActive s"
  "btcEffectActive (endRun s) = btcEffectActive s"
  "flashingGates (endRun s) = flashingGates s"
  "lastGateX (endRun s) = lastGateX s"
  "lastTokenType (endRun s) = lastTokenType s"
  "tokenCountsRef (endRun s) = tokenCountsRef s"
  "highestTokenCounts (endRun s) = highestTokenCounts s"
  "st_gameState (endRun s) = GAME_OVER"
  by (simp_all add: endRun_def Let_def split: prod.splits)

lemma collectToken_keeps [simp]:
  "lineY (snd (collectToken t g s)) = lineY s"
  "gatesPassed (snd (collectToken t g s)) = gatesPassed s"
  "difficultyLevel (snd (collectToken t g s)) = difficultyLevel s"
  "baseSpeed (snd (collectToken t g s)) = baseSpeed s"
  "currentSpeed (snd (collectToken t g s)) = currentSpeed s"
  "solEffectActive (snd (collectToken t g s)) = solEffectActive s"
  "btcEffectActive (snd (collectToken t g s)) = btcEffectActive s"
  "flashingGates (snd (collectToken t g s)) = flashingGates s"
  "lastGateX (snd (collectToken t g s)) = lastGateX s"
  "lastTokenType (snd (collectToken t g s)) = lastTokenType s"
  "highestTokenCounts (snd (collectToken t g s)) = highestTokenCounts s"
  "st_highestTokenCounts (snd (collectToken t g s)) = st_highestTokenCounts s"
  "ls_highestTokenCounts (snd (collectToken t g s)) = ls_highestTokenCounts s"
  "st_gameState (snd (collectToken t g s)) = st_gameState s"
  by (simp_all add: collectToken_def Let_def)

lemma collectToken_gate [simp]:
  "fst (collectToken t g s) = g\<lparr>tokenType := NONE\<rparr>"
  by (simp add: collectToken_def Let_def)

lemma markPassed_keeps [simp]:
  "lineY (snd (markPassed g s)) = lineY s"
  "currentSpeed (snd (markPassed g s)) = currentSpeed s"
  "solEffectActive (snd (markPassed g s)) = solEffectActive s"
  "btcEffectActive (snd (markPassed g s)) = btcEffectActive s"
  "flashingGates (snd (markPassed g s)) = flashingGates s"
  "lastGateX (snd (markPassed g s)) = lastGateX s"
  "lastTokenType (snd (markPassed g s)) = lastTokenType s"
  "tokenCountsRef (snd (markPassed g s)) = tokenCountsRef s"
  "highestTokenCounts (snd (markPassed g s)) = highestTokenCounts s"
  "st_highestTokenCounts (snd (markPassed g s)) = st_highestTokenCounts s"
  "ls_highestTokenCounts (snd (markPassed g s)) = ls_highestTokenCounts s"
  "st_gameState (snd (markPassed g s)) = st_gameState s"
  by (simp_all add: markPassed_def Let_def)

lemma markPassed_gate [simp]:
  "tokenType (fst (markPassed g s)) = tokenType g"
  "baseGateGap (fst (markPassed g s)) = baseGateGap g"
  "topHeight (fst (markPassed g s)) = topHeight g"
  "gx (fst (markPassed g s)) = gx g"
  by (simp_all add: markPassed_def Let_def)

lemma advanceGate_gate [simp]:
  "gx (fst (advanceGate t g s)) = gx g - currentSpeed s"
  "topHeight (fst (advanceGate t g s)) = topHeight g"
  "baseGateGap (fst (advanceGate t g s)) = baseGateGap g"
  "tokenType (fst (advanceGate t g s)) = tokenType g"
  "hasPassed (fst (advanceGate t g s)) = hasPassed g"
  by (simp_all add: advanceGate_def Let_def)

lemma advanceGate_keeps [simp]:
  "lineY (snd (advanceGate t g s)) = lineY s"
  "gatesPassed (snd (advanceGate t g s)) = gatesPassed s"
  "difficultyLevel (snd (advanceGate t g s)) = difficultyLevel s"
  "baseSpeed (snd (advanceGate t g s)) = baseSpeed s"
  "currentSpeed (snd (advanceGate t g s)) = currentSpeed s"
  "solEffectActive (snd (advanceGate t g s)) = solEffectActive s"
  "btcEffectActive (snd (advanceGate t g s)) = btcEffectActive s"
  "flashingGates (snd (advanceGate t g s)) = flashingGates s"
  "lastTokenType (snd (advanceGate t g s)) = lastTokenType s"
  "tokenCountsRef (snd (advanceGate t g s)) = tokenCountsRef s"
  "st_tokenCounts (snd (advanceGate t g s)) = st_tokenCounts s"
  "highestTokenCounts (snd (advanceGate t g s)) = highestTokenCounts s"
  "st_highestTokenCounts (snd (advanceGate t g s)) = st_highestTokenCounts s"
  "ls_highestTokenCounts (snd (advanceGate t g s)) = ls_highestTokenCounts s"
  "st_gameState (snd (advanceGate t g s)) = st_gameState s"
  "activeEffects (snd (advanceGate t g s)) = activeEffects s"
  by (simp_all add: advanceGate_def Let_def)

text \<open>
  Whether a gate overlaps the player's column, collides, or offers its token depends on the
  gate's position after the move, its opening and its token, and on the player's position
  and the two effect flags; the tracking of the rightmost gate and the flashing flag do not
  matter.
\<close>

lemma geometry_cong [simp]:
  "collision (s\<lparr>lastGateX := v\<rparr>) g = collision s g"
  "collision s (g\<lparr>gx := a\<rparr>) = collision s g"
  "collision s (g\<lparr>isFlashing := b\<rparr>) = collision s g"
  "tokenInReach (s\<lparr>lastGateX := v\<rparr>) g = tokenInReach s g"
  "tokenInReach s (g\<lparr>gx := a\<rparr>) = tokenInReach s g"
  "tokenInReach s (g\<lparr>isFlashing := b\<rparr>) = tokenInReach s g"
  "overlapsLine (g\<lparr>isFlashing := b\<rparr>) = overlapsLine g"
  by (simp_all add: collision_def tokenInReach_def tokenY_def actualGateGap_def overlapsLine_def)

lemma advanceGate_geometry [simp]:
  "collision (snd (advanceGate t g s)) (fst (advanceGate t g s)) = collision s g"
  "tokenInReach (snd (advanceGate t g s)) (fst (advanceGate t g s)) = tokenInReach s g"
  "overlapsLine (fst (advanceGate t g s)) = overlapsLine (g\<lparr>gx := gx g - currentSpeed s\<rparr>)"
  by (simp_all add: advanceGate_def Let_def)

text \<open>The three ways through the callback.\<close>

lemma gateCallback_collide:
  assumes "overlapsLine (g\<lparr>gx := gx g - currentSpeed s\<rparr>)" and "collision s g"
  shows "gateCallback t g s = (False, fst (advanceGate t g s), endRun (snd (advanceGate t g s)))"
  using assms by (simp add: gateCallback_def split_beta)

lemma gateCallback_collect:
  assumes "overlapsLine (g\<lparr>gx := gx g - currentSpeed s\<rparr>)" and "\<not> collision s g"
      and "tokenInReach s g"
  shows "snd (gateCallback t g s) =
           markPassed (fst (collectToken t (fst (advanceGate t g s)) (snd (advanceGate t g s))))
                      (snd (collectToken t (fst (advanceGate t g s)) (snd (advanceGate t g s))))"
  using assms by (simp add: gateCallback_def split_beta)

lemma gateCallback_plain:
  assumes "\<not> (overlapsLine (g\<lparr>gx := gx g - currentSpeed s\<rparr>) \<and> (collision s g \<or> tokenInReach s g))"
  shows "snd (gateCallback t g s) = markPassed (fst (advanceGate t g s)) (snd (advanceGate t g s))"
  using assms by (auto simp add: gateCallback_def split_beta)

lemma gateCallback_keeps [simp]:
  "lineY (snd (snd (gateCallback t g s))) = lineY s"
  "currentSpeed (snd (snd (gateCallback t g s))) = currentSpeed s"
  "solEffectActive (snd (snd (gateCallback t g s))) = solEffectActive s"
  "btcEffectActive (snd (snd (gateCallback t g s))) = btcEffectActive s"
  "flashingGates (snd (snd (gateCallback t g s))) = flashingGates s"
  "lastTokenType (snd (snd (gateCallback t g s))) = lastTokenType s"
  "highestTokenCounts (snd (snd (gateCallback t g s))) = highestTokenCounts s"
  by (simp_all add: gateCallback_def Let_def split_beta)

lemma gateCallback_gate [simp]:
  "baseGateGap (fst (snd (gateCallback t g s))) = baseGateGap g"
  "topHeight (fst (snd (gateCallback t g s))) = topHeight g"
  "gx (fst (snd (gateCallback t g s))) = gx g - currentSpeed s"
  by (simp_all add: gateCallback_def Let_def split_beta)

lemma filterGates_keeps [simp]:
  "lineY (snd (filterGates t gs s)) = lineY s"
  "currentSpeed (snd (filterGates t gs s)) = currentSpeed s"
  "solEffectActive (snd (filterGates t gs s)) = solEffectActive s"
  "btcEffectActive (snd (filterGates t gs s)) = btcEffectActive s"
  "flashingGates (snd (filterGates t gs s)) = flashingGates s"
  "lastTokenType (snd (filterGates t gs s)) = lastTokenType s"
  "highestTokenCounts (snd (filterGates t gs s)) = highestTokenCounts s"
  by (induction gs arbitrary: s; simp add: split_beta)+

lemma applyRule_keeps [simp]:
  "gates (applyRule e s) = gates s"
  "baseSpeed (applyRule e s) = baseSpeed s"
  "gatesPassed (applyRule e s) = gatesPassed s"
  "difficultyLevel (applyRule e s) = difficultyLevel s"
  "lineY (applyRule e s) = lineY s"
  "lastTokenType (applyRule e s) = lastTokenType s"
  "lastGateX (applyRule e s) = lastGateX s"
  "chaosMode (applyRule e s) = chaosMode s"
  "chaosModeEndTime (applyRule e s) = chaosModeEndTime s"
  "tokenCountsRef (applyRule e s) = tokenCountsRef s"
  "highestTokenCounts (applyRule e s) = highestTokenCounts s"
  "st_highestTokenCounts (applyRule e s) = st_highestTokenCounts s"
  "ls_highestTokenCounts (applyRule e s) = ls_highestTokenCounts s"
  "st_gameState (applyRule e s) = st_gameState s"
  by (cases "etype e"; simp)+

lemma applyRules_keeps [simp]:
  "gates (applyRules es s) = gates s"
  "baseSpeed (applyRules es s) = baseSpeed s"
  "gatesPassed (applyRules es s) = gatesPassed s"
  "difficultyLevel (applyRules es s) = difficultyLevel s"
  "lineY (applyRules es s) = lineY s"
  "lastTokenType (applyRules es s) = lastTokenType s"
  "lastGateX (applyRules es s) = lastGateX s"
  "chaosMode (applyRules es s) = chaosMode s"
  "chaosModeEndTime (applyRules es s) = chaosModeEndTime s"
  "tokenCountsRef (applyRules es s) = tokenCountsRef s"
  "highestTokenCounts (applyRules es s) = highestTokenCounts s"
  "st_highestTokenCounts (applyRules es s) = st_highestTokenCounts s"
  "ls_highestTokenCounts (applyRules es s) = ls_highestTokenCounts s"
  "st_gameState (applyRules es s) = st_gameState s"
  by (induction es arbitrary: s; simp del: applyRule.simps)+

lemma processEffects_keeps [simp]:
  "gates (processEffects t s) = gates s"
  "baseSpeed (processEffects t s) = baseSpeed s"
  "gatesPassed (processEffects t s) = gatesPassed s"
  "difficultyLevel (processEffects t s) = difficultyLevel s"
  "lineY (processEffects t s) = lineY s"
  "lastTokenType (processEffects t s) = lastTokenType s"
  "lastGateX (processEffects t s) = lastGateX s"
  "chaosMode (processEffects t s) = chaosMode s"
  "chaosModeEndTime (processEffects t s) = chaosModeEndTime s"
  "tokenCountsRef (processEffects t s) = tokenCountsRef s"
  "highestTokenCounts (processEffects t s) = highestTokenCounts s"
  "st_highestTokenCounts (processEffects t s) = st_highestTokenCounts s"
  "ls_highestTokenCounts (processEffects t s) = ls_highestTokenCounts s"
  "st_gameState (processEffects t s) = st_gameState s"
  by (simp_all add: processEffects_def Let_def)

lemma velocityStep_keeps [simp]:
  "gates (velocityStep t r s) = gates s"
  "baseSpeed (velocityStep t r s) = baseSpeed s"
  "gatesPassed (velocityStep t r s) = gatesPassed s"
  "difficultyLevel (velocityStep t r s) = difficultyLevel s"
  "lineY (velocityStep t r s) = lineY s"
  "lastTokenType (velocityStep t r s) = lastTokenType s"
  "lastGateX (velocityStep t r s) = lastGateX s"
  "tokenCountsRef (velocityStep t r s) = tokenCountsRef s"
  "highestTokenCounts (velocityStep t r s) = highestTokenCounts s"
  "st_highestTokenCounts (velocityStep t r s) = st_highestTokenCounts s"
  "ls_highestTokenCounts (velocityStep t r s) = ls_highestTokenCounts s"
  "st_gameState (velocityStep t r s) = st_gameState s"
  by (simp_all add: velocityStep_def applyChaos_def applyGravity_def)

lemma integrate_keeps [simp]:
  "gates (integrate s) = gates s"
  "baseSpeed (integrate s) = baseSpeed s"
  "gatesPassed (integrate s) = gatesPassed s"
  "difficultyLevel (integrate s) = difficultyLevel s"
  "lineY (integrate s) = lineY s + lineVelocity s"
  "lineVelocity (integrate s) = lineVelocity s"
  "lastTokenType (integrate s) = lastTokenType s"
  "lastGateX (integrate s) = lastGateX s"
  "tokenCountsRef (integrate s) = tokenCountsRef s"
  "highestTokenCounts (integrate s) = highestTokenCounts s"
  "st_highestTokenCounts (integrate s) = st_highestTokenCounts s"
  "ls_highestTokenCounts (integrate s) = ls_highestTokenCounts s"
  "st_gameState (integrate s) = st_gameState s"
  by (simp_all add: integrate_def Let_def)

lemma initializeGate_keeps [simp]:
  "baseSpeed (initializeGate r s) = baseSpeed s"
  "gatesPassed (initializeGate r s) = gatesPassed s"
  "difficultyLevel (initializeGate r s) = difficultyLevel s"
  "lineY (initializeGate r s) = lineY s"
  "lineVelocity (initializeGate r s) = lineVelocity s"
  "tokenCountsRef (initializeGate r s) = tokenCountsRef s"
  "highestTokenCounts (initializeGate r s) = highestTokenCounts s"
  "st_highestTokenCounts (initializeGate r s) = st_highestTokenCounts s"
  "ls_highestTokenCounts (initializeGate r s) = ls_highestTokenCounts s"
  "st_gameState (initializeGate r s) = st_gameState s"
  by (simp_all add: initializeGate_def Let_def)

lemma spawnIfDue_keeps [simp]:
  "baseSpeed (spawnIfDue r s) = baseSpeed s"
  "gatesPassed (spawnIfDue r s) = gatesPassed s"
  "difficultyLevel (spawnIfDue r s) = difficultyLevel s"
  "lineY (spawnIfDue r s) = lineY s"
  "lineVelocity (spawnIfDue r s) = lineVelocity s"
  "tokenCountsRef (spawnIfDue r s) = tokenCountsRef s"
  "highestTokenCounts (spawnIfDue r s) = highestTokenCounts s"
  "st_highestTokenCounts (spawnIfDue r s) = st_highestTokenCounts s"
  "ls_highestTokenCounts (spawnIfDue r s) = ls_highestTokenCounts s"
  "st_gameState (spawnIfDue r s) = st_gameState s"
  by (simp_all add: spawnIfDue_def)

lemma updateGates_keeps [simp]:
  "lineY (updateGates t s) = lineY s"
  "currentSpeed (updateGates t s) = currentSpeed s"
  "solEffectActive (updateGates t s) = solEffectActive s"
  "btcEffectActive (updateGates t s) = btcEffectActive s"
  "lastTokenType (updateGates t s) = lastTokenType s"
  "highestTokenCounts (updateGates t s) = highestTokenCounts s"
  by (simp_all add: updateGates_def split_beta)

lemma boundsCheck_keeps [simp]:
  "lineY (boundsCheck s) = lineY s"
  "baseSpeed (boundsCheck s) = baseSpeed s"
  "gatesPassed (boundsCheck s) = gatesPassed s"
  "difficultyLevel (boundsCheck s) = difficultyLevel s"
  "lastTokenType (boundsCheck s) = lastTokenType s"
  "tokenCountsRef (boundsCheck s) = tokenCountsRef s"
  "highestTokenCounts (boundsCheck s) = highestTokenCounts s"
  by (simp_all add: boundsCheck_def)

lemma endRun_gates [simp]: "gates (endRun s) = gates s"
  by (simp add: endRun_def Let_def split_beta)

lemma boundsCheck_gates [simp]: "gates (boundsCheck s) = gates s"
  by (simp add: boundsCheck_def)

section \<open>Collision with a gate\<close>

lemma gameOver_sticky_callback:
  "st_gameState s = GAME_OVER \<Longrightarrow> st_gameState (snd (snd (gateCallback t g s))) = GAME_OVER"
  by (simp add: gateCallback_def Let_def split_beta)

lemma gameOver_sticky_filter:
  "st_gameState s = GAME_OVER \<Longrightarrow> st_gameState (snd (filterGates t gs s)) = GAME_OVER"
  by (induction gs arbitrary: s) (simp_all add: split_beta gameOver_sticky_callback)

text \<open>
  A gate of the list that collides ends the run whatever the gates before it did: they change
  neither the player's position nor the speed nor the effect flags, and no gate after it
  takes the game state back.
\<close>

lemma collision_filter:
  assumes "g \<in> set gs"
      and "overlapsLine (g\<lparr>gx := gx g - currentSpeed s\<rparr>)" and "collision s g"
  shows "st_gameState (snd (filterGates t gs s)) = GAME_OVER"
  using assms
proof (induction gs arbitrary: s)
  case Nil
  then show ?case by simp
next
  case (Cons a gs)
  show ?case
  proof (cases "a = g")
    case True
    have "st_gameState (snd (snd (gateCallback t a s))) = GAME_OVER"
      using Cons.prems True by (simp add: gateCallback_collide)
    then show ?thesis
      by (simp add: split_beta gameOver_sticky_filter)
  next
    case False
    then have in_rest: "g \<in> set gs" using Cons.prems by simp
    let ?s' = "snd (snd (gateCallback t a s))"
    have ov: "overlapsLine (g\<lparr>gx := gx g - currentSpeed ?s'\<rparr>)"
      using Cons.prems by simp
    have co: "collision ?s' g"
      using Cons.prems by (simp add: collision_def actualGateGap_def)
    from Cons.IH [OF in_rest ov co] show ?thesis
      by (simp add: split_beta)
  qed
qed

lemma boundsCheck_state:
  "st_gameState (boundsCheck s) = (if outOfBounds s then GAME_OVER else st_gameState s)"
  by (simp add: boundsCheck_def)

text \<open>
  Claim C10. In a frame in which a gate's horizontal span (after the gate has moved) contains
  the player's column and the collision-suppressing effect is not active, a player position
  equal to the top boundary of the opening, or equal to the bottom boundary of the effective
  gap, is a collision: the comparisons are inclusive, the callback drops the gate and the
  game state becomes GAME_OVER, also at the end of the pass over all gates and at the end of
  the frame of which \<open>s\<close> is the state after the integration and the spawn.
\<close>

theorem boundary_contact_collides:
  assumes "g \<in> set (gates s)"
      and "overlapsLine (g\<lparr>gx := gx g - currentSpeed s\<rparr>)"
      and "\<not> solEffectActive s"
      and "lineY s = topHeight g \<or> lineY s = topHeight g + actualGateGap s g"
  shows "collision s g \<and> fst (gateCallback t g s) = False \<and>
         st_gameState (snd (snd (gateCallback t g s))) = GAME_OVER \<and>
         st_gameState (updateGates t s) = GAME_OVER \<and>
         (s = spawnIfDue r (integrate (velocityStep t r s0)) \<longrightarrow>
            st_gameState (gameLoop t r s0) = GAME_OVER)"
proof -
  have co: "collision s g"
    using assms(3,4) by (auto simp add: collision_def)
  have "st_gameState (snd (filterGates t (gates s) s)) = GAME_OVER"
    using assms(1,2) co by (rule collision_filter)
  then have over: "st_gameState (updateGates t s) = GAME_OVER"
    by (simp add: updateGates_def split_beta)
  then have frame: "s = spawnIfDue r (integrate (velocityStep t r s0)) \<longrightarrow>
            st_gameState (gameLoop t r s0) = GAME_OVER"
    by (auto simp add: gameLoop_def boundsCheck_state)
  have "fst (gateCallback t g s) = False"
    "st_gameState (snd (snd (gateCallback t g s))) = GAME_OVER"
    using assms(2) co by (simp_all add: gateCallback_collide)
  with over frame show ?thesis using co by simp
qed

text \<open>
  The theorem at the gate of \<open>contactState\<close>, with the player on the top boundary (200) and
  on the bottom boundary (350); one unit inside the opening the run goes on. And at whole
  frames: the frame that takes the player from 199.78 to 200, or from 349.78 to 350, ends
  the run, the frame that takes the player to 201 does not.
\<close>

theorem boundary_contact_collides_witness:
  "st_gameState (updateGates 0 (contactState 200)) = GAME_OVER \<and>
   st_gameState (updateGates 0 (contactState 350)) = GAME_OVER \<and>
   st_gameState (updateGates 0 (contactState 201)) = PLAYING \<and>
   lineY (integrate (velocityStep 0 noRolls (contactState (19978 / 100)))) = 200 \<and>
   st_gameState (gameLoop 0 noRolls (contactState (19978 / 100))) = GAME_OVER \<and>
   lineY (integrate (velocityStep 0 noRolls (contactState (34978 / 100)))) = 350 \<and>
   st_gameState (gameLoop 0 noRolls (contactState (34978 / 100))) = GAME_OVER \<and>
   st_gameState (gameLoop 0 noRolls (contactState (20078 / 100))) = PLAYING"
proof -
  have top: "st_gameState (updateGates 0 (contactState 200)) = GAME_OVER"
    using boundary_contact_collides [of contactGate "contactState 200" 0]
    by (simp add: contactState_def contactGate_def mount_def overlapsLine_def
        actualGateGap_def game_constants)
  have bot: "st_gameState (updateGates 0 (contactState 350)) = GAME_OVER"
    using boundary_contact_collides [of contactGate "contactState 350" 0]
    by (simp add: contactState_def contactGate_def mount_def overlapsLine_def
        actualGateGap_def game_constants)
  have mid: "st_gameState (updateGates 0 (contactState 201)) = PLAYING"
    by (simp add: contactState_def contactGate_def mount_def frame_defs game_constants)
  let ?a = "spawnIfDue noRolls (integrate (velocityStep 0 noRolls (contactState (19978 / 100))))"
  let ?b = "spawnIfDue noRolls (integrate (velocityStep 0 noRolls (contactState (34978 / 100))))"
  have y: "lineY (integrate (velocityStep 0 noRolls (contactState (19978 / 100)))) = 200"
    "lineY (integrate (velocityStep 0 noRolls (contactState (34978 / 100)))) = 350"
    by (simp_all add: contactState_def contactGate_def mount_def noRolls_def frame_defs
        game_constants)
  have a: "contactGate \<in> set (gates ?a)"
    "overlapsLine (contactGate\<lparr>gx := gx contactGate - currentSpeed ?a\<rparr>)"
    "\<not> solEffectActive ?a"
    "lineY ?a = topHeight contactGate \<or> lineY ?a = topHeight contactGate + actualGateGap ?a contactGate"
    by (simp_all add: contactState_def contactGate_def mount_def noRolls_def frame_defs
        game_constants)
  have b: "contactGate \<in> set (gates ?b)"
    "overlapsLine (contactGate\<lparr>gx := gx contactGate - currentSpeed ?b\<rparr>)"
    "\<not> solEffectActive ?b"
    "lineY ?b = topHeight contactGate \<or> lineY ?b = topHeight contactGate + actualGateGap ?b contactGate"
    by (simp_all add: contactState_def contactGate_def mount_def noRolls_def frame_defs
        game_constants)
  have ftop: "st_gameState (gameLoop 0 noRolls (contactState (19978 / 100))) = GAME_OVER"
    using boundary_contact_collides [OF a, of 0 noRolls "contactState (19978 / 100)"]
    by blast
  have fbot: "st_gameState (gameLoop 0 noRolls (contactState (34978 / 100))) = GAME_OVER"
    using boundary_contact_collides [OF b, of 0 noRolls "contactState (34978 / 100)"]
    by blast
  have fmid: "st_gameState (gameLoop 0 noRolls (contactState (20078 / 100))) = PLAYING"
    by (simp add: contactState_def contactGate_def mount_def noRolls_def frame_defs game_constants)
  from top bot mid ftop fbot fmid y show ?thesis by simp
qed

section \<open>The bounds check\<close>

lemma edge_frame:
  "lineY (gameLoop 0 noRolls (edgeState y)) = y + 22 / 100"
  "st_gameState (updateGates 0 (spawnIfDue noRolls
      (integrate (velocityStep 0 noRolls (edgeState y))))) = PLAYING"
  by (simp_all add: gameLoop_def velocityStep_def processEffects_def
        applyGravity_def applyChaos_def edgeState_def mount_def game_constants
        updateGates_def spawnIfDue_def)

text \<open>
  Claim C5. The position the bounds check reads is the position after this frame's
  integration. The frame ends the run by the bounds branch (the only branch that returns
  before requesting the next frame) exactly when that position is below 0 or above the
  playfield height, whatever the gates are; then the game state is GAME_OVER. A position
  within the closed range, the lower bound \<open>GAME_HEIGHT\<close> itself included, leaves the game
  state as the pass over the gates left it.
\<close>

theorem out_of_bounds_ends_run:
  "lineY (gameLoop t r s) = lineY s + lineVelocity (velocityStep t r s) \<and>
   (\<not> frameRequested (gameLoop t r s) \<longleftrightarrow>
      lineY (gameLoop t r s) < 0 \<or> lineY (gameLoop t r s) > GAME_HEIGHT) \<and>
   (lineY (gameLoop t r s) < 0 \<or> lineY (gameLoop t r s) > GAME_HEIGHT \<longrightarrow>
      st_gameState (gameLoop t r s) = GAME_OVER) \<and>
   (0 \<le> lineY (gameLoop t r s) \<and> lineY (gameLoop t r s) \<le> GAME_HEIGHT \<longrightarrow>
      st_gameState (gameLoop t r s) =
        st_gameState (updateGates t (spawnIfDue r (integrate (velocityStep t r s)))))"
  by (auto simp add: gameLoop_def boundsCheck_def outOfBounds_def)

text \<open>
  The theorem at three frames without gates: the player arrives exactly on the lower bound
  and the run goes on; the player arrives 0.22 beyond it and the run ends; the player
  arrives above the top and the run ends.
\<close>

theorem out_of_bounds_ends_run_witness:
  "lineY (gameLoop 0 noRolls (edgeState (600 - 22 / 100))) = GAME_HEIGHT \<and>
   frameRequested (gameLoop 0 noRolls (edgeState (600 - 22 / 100))) \<and>
   st_gameState (gameLoop 0 noRolls (edgeState (600 - 22 / 100))) = PLAYING \<and>
   lineY (gameLoop 0 noRolls (edgeState 600)) > GAME_HEIGHT \<and>
   \<not> frameRequested (gameLoop 0 noRolls (edgeState 600)) \<and>
   st_gameState (gameLoop 0 noRolls (edgeState 600)) = GAME_OVER \<and>
   lineY (gameLoop 0 noRolls (edgeState (- 1))) < 0 \<and>
   st_gameState (gameLoop 0 noRolls (edgeState (- 1))) = GAME_OVER"
  using out_of_bounds_ends_run [of 0 noRolls "edgeState (600 - 22 / 100)"]
        out_of_bounds_ends_run [of 0 noRolls "edgeState 600"]
        out_of_bounds_ends_run [of 0 noRolls "edgeState (- 1)"]
  by (simp add: edge_frame GAME_HEIGHT_def)

section \<open>The impulse\<close>

text \<open>
  Claim C9. An impulse sets the velocity to the bounce constant whatever it was, so firing
  it again changes nothing: any positive number of impulses with no frame in between leaves
  the state that one impulse leaves, for the handler itself and for the impulse events of a
  run.
\<close>

theorem impulse_idempotent:
  "lineVelocity (handleInput s) = BOUNCE_VELOCITY \<and>
   handleInput (handleInput s) = handleInput s \<and>
   (handleInput ^^ Suc n) s = handleInput s \<and>
   run (replicate (Suc n) Impulse) s = run [Impulse] s"
proof -
  have idem: "handleInput (handleInput u) = handleInput u" for u
    by (simp add: handleInput_def)
  have pw: "(handleInput ^^ Suc n) s = handleInput s"
    by (induction n) (simp_all add: idem)
  have st: "step Impulse (step Impulse u) = step Impulse u" for u
    by (simp add: handleInput_def)
  have "run (replicate (Suc n) Impulse) u = step Impulse u" for u
  proof (induction n arbitrary: u)
    case 0
    show ?case by simp
  next
    case (Suc n)
    have "run (replicate (Suc (Suc n)) Impulse) u =
          run (replicate (Suc n) Impulse) (step Impulse u)"
      by simp
    also have "\<dots> = step Impulse (step Impulse u)" by (rule Suc.IH)
    finally show ?case by (simp only: st)
  qed
  then have "run (replicate (Suc n) Impulse) s = run [Impulse] s" by simp
  with idem pw show ?thesis by (simp add: handleInput_def)
qed

section \<open>The fresh run\<close>

lemma freshRun_reachable: "reachable freshRun"
  unfolding freshRun_def by (intro reachable.intros)

lemma freshRun_fields:
  "gates freshRun = [\<lparr>gx = 800, topHeight = 200, hasPassed = False, tokenType = NONE,
                      baseGateGap = 150, isFlashing = False\<rparr>]"
  "lineY freshRun = 300" "lineVelocity freshRun = 0"
  "gatesPassed freshRun = 0" "difficultyLevel freshRun = 1" "baseSpeed freshRun = 253 / 100"
  "btcEffectActive freshRun = False" "solEffectActive freshRun = False"
  "st_gameState freshRun = PLAYING" "activeEffects freshRun = []"
  "highestTokenCounts freshRun = zeroCounts" "st_highestTokenCounts freshRun = zeroCounts"
  "ls_highestTokenCounts freshRun = None" "tokenCountsRef freshRun = zeroCounts"
  "lastGateX freshRun = 800" "chaosMode freshRun = False"
  by (simp_all add: freshRun_def startLoop_def handleStartGame_def mount_def noRolls_def
        frame_defs game_constants)

section \<open>Gap sizes\<close>

text \<open>The pass over the gates drops gates and never changes a base gap.\<close>

lemma filterGates_bases:
  "g' \<in> set (fst (filterGates t gs s)) \<Longrightarrow> \<exists>g\<in>set gs. baseGateGap g' = baseGateGap g"
proof (induction gs arbitrary: s)
  case Nil
  then show ?case by simp
next
  case (Cons a gs)
  let ?s' = "snd (snd (gateCallback t a s))"
  from Cons.prems have "g' = fst (snd (gateCallback t a s)) \<or> g' \<in> set (fst (filterGates t gs ?s'))"
    by (simp add: split_beta split: if_splits)
  then show ?case
  proof
    assume "g' = fst (snd (gateCallback t a s))"
    then have "baseGateGap g' = baseGateGap a" by simp
    then show ?thesis by simp
  next
    assume "g' \<in> set (fst (filterGates t gs ?s'))"
    from Cons.IH [OF this] show ?thesis by auto
  qed
qed

lemma gameLoop_bases:
  assumes "g' \<in> set (gates (gameLoop t r s))"
  shows "(\<exists>g\<in>set (gates s). baseGateGap g' = baseGateGap g) \<or>
         baseGateGap g' = NARROW_GATE_GAP \<or> baseGateGap g' = INITIAL_GATE_GAP"
proof -
  let ?u = "spawnIfDue r (integrate (velocityStep t r s))"
  from assms have "g' \<in> set (fst (filterGates t (gates ?u) ?u))"
    by (simp add: gameLoop_def updateGates_def split_beta)
  then obtain g where g: "g \<in> set (gates ?u)" "baseGateGap g' = baseGateGap g"
    using filterGates_bases by blast
  from g(1) have "g \<in> set (gates s) \<or> baseGateGap g = NARROW_GATE_GAP \<or> baseGateGap g = INITIAL_GATE_GAP"
    by (auto simp add: spawnIfDue_def initializeGate_def Let_def split: if_splits)
  with g(2) show ?thesis by auto
qed

lemma reachable_bases:
  "reachable s \<Longrightarrow> g \<in> set (gates s) \<Longrightarrow>
     baseGateGap g = NARROW_GATE_GAP \<or> baseGateGap g = INITIAL_GATE_GAP"
proof (induction arbitrary: g rule: reachable.induct)
  case (reachable_mount hs hc)
  then show ?case by (simp add: mount_def)
next
  case (reachable_step s e)
  show ?case
  proof (cases e)
    case (StartGame r)
    with reachable_step show ?thesis
      by (auto simp add: startLoop_def handleStartGame_def initializeGate_def Let_def
            split: if_splits)
  next
    case Impulse
    with reachable_step show ?thesis
      by (auto simp add: handleInput_def split: if_splits)
  next
    case (Frame t r)
    show ?thesis
    proof (cases "st_gameState s = PLAYING")
      case True
      with Frame reachable_step.prems have "g \<in> set (gates (gameLoop t r s))" by simp
      from gameLoop_bases [OF this] reachable_step.IH show ?thesis by metis
    next
      case False
      with Frame reachable_step show ?thesis by simp
    qed
  qed
qed

lemma frame_gates_bases:
  assumes "reachable s" and "g \<in> set (gates (spawnIfDue r (integrate (velocityStep t r s))))"
  shows "baseGateGap g = NARROW_GATE_GAP \<or> baseGateGap g = INITIAL_GATE_GAP"
proof -
  from assms(2) have "g \<in> set (gates s) \<or>
      baseGateGap g = NARROW_GATE_GAP \<or> baseGateGap g = INITIAL_GATE_GAP"
    by (auto simp add: spawnIfDue_def initializeGate_def Let_def split: if_splits)
  with reachable_bases [OF assms(1)] show ?thesis by blast
qed

text \<open>
  Claim C7. For every gate of every state the component can reach, and for every gate a frame
  from such a state passes over (the gates of the state and the one the frame may spawn), the
  effective gap is at least the gate's base gap, whether the widen-gap effect is active or
  not: a base gap is one of the two positive constants, and widening multiplies it by 1.5.
  The effective gap is the one the collision test and the token's position use.
\<close>

theorem widening_never_shrinks:
  assumes "reachable s"
  shows "(\<forall>g\<in>set (gates s). baseGateGap g \<le> actualGateGap s g \<and>
            (\<forall>u. baseGateGap g \<le> actualGateGap u g)) \<and>
         (\<forall>g\<in>set (gates (spawnIfDue r (integrate (velocityStep t r s)))).
            \<forall>u. baseGateGap g \<le> actualGateGap u g) \<and>
         tokenY u g = topHeight g + actualGateGap u g / 2 \<and>
         (collision u g \<longleftrightarrow>
            \<not> solEffectActive u \<and>
            (lineY u \<le> topHeight g \<or> lineY u \<ge> topHeight g + actualGateGap u g))"
proof -
  have wide: "baseGateGap h \<le> actualGateGap w h"
    if "baseGateGap h = NARROW_GATE_GAP \<or> baseGateGap h = INITIAL_GATE_GAP" for h w
    using that
    by (auto simp add: actualGateGap_def GATE_GAP_INCREASE_PERCENT_def NARROW_GATE_GAP_def
        INITIAL_GATE_GAP_def)
  have here: "\<forall>g\<in>set (gates s). baseGateGap g \<le> actualGateGap s g \<and>
            (\<forall>u. baseGateGap g \<le> actualGateGap u g)"
    using reachable_bases [OF assms] wide by blast
  have frame: "\<forall>g\<in>set (gates (spawnIfDue r (integrate (velocityStep t r s)))).
            \<forall>u. baseGateGap g \<le> actualGateGap u g"
    using frame_gates_bases [OF assms] wide by blast
  from here frame show ?thesis
    by (simp add: tokenY_def collision_def)
qed

text \<open>
  The theorem at the first gate of a fresh run, without the effect (150) and, for the same
  gate, in a state in which the effect is active (225).
\<close>

theorem widening_never_shrinks_witness:
  "reachable freshRun \<and> hd (gates freshRun) \<in> set (gates freshRun) \<and>
   hd (gates freshRun) \<in> set (gates (spawnIfDue noRolls (integrate (velocityStep 0 noRolls freshRun)))) \<and>
   baseGateGap (hd (gates freshRun)) = 150 \<and>
   actualGateGap freshRun (hd (gates freshRun)) = 150 \<and>
   actualGateGap (freshRun\<lparr>btcEffectActive := True\<rparr>) (hd (gates freshRun)) = 225 \<and>
   baseGateGap (hd (gates freshRun)) \<le> actualGateGap (freshRun\<lparr>btcEffectActive := True\<rparr>) (hd (gates freshRun))"
proof -
  have m: "hd (gates freshRun) \<in> set (gates freshRun)"
    by (simp add: freshRun_fields)
  have m': "hd (gates freshRun) \<in> set (gates (spawnIfDue noRolls (integrate (velocityStep 0 noRolls freshRun))))"
    by (simp add: spawnIfDue_def freshRun_fields game_constants)
  have v: "actualGateGap freshRun (hd (gates freshRun)) = 150"
    "actualGateGap (freshRun\<lparr>btcEffectActive := True\<rparr>) (hd (gates freshRun)) = 225"
    "baseGateGap (hd (gates freshRun)) = 150"
    by (simp_all add: freshRun_fields actualGateGap_def GATE_GAP_INCREASE_PERCENT_def)
  from widening_never_shrinks [OF freshRun_reachable, of noRolls 0] m m' have
    "baseGateGap (hd (gates freshRun)) \<le> actualGateGap (freshRun\<lparr>btcEffectActive := True\<rparr>) (hd (gates freshRun))"
    by blast
  with freshRun_reachable m m' v show ?thesis by simp
qed

section \<open>The difficulty schedule\<close>

lemma speedAtLevel_mono: "a \<le> b \<Longrightarrow> speedAtLevel a \<le> speedAtLevel b"
  by (simp add: speedAtLevel_def GATE_SPEED_def DIFFICULTY_INCREASE_def)

lemma levelAfter_mono: "m \<le> n \<Longrightarrow> levelAfter m \<le> levelAfter n"
  by (simp add: levelAfter_def div_le_mono)

lemma levelAfter_Suc:
  "levelAfter (Suc n) = (if Suc n mod DIFFICULTY_GATE_THRESHOLD = 0 then levelAfter n + 1 else levelAfter n)"
  by (simp add: levelAfter_def div_Suc)

lemma markPassed_schedule:
  assumes "onSchedule s"
  shows "onSchedule (snd (markPassed g s)) \<and> baseSpeed s \<le> baseSpeed (snd (markPassed g s)) \<and>
         gatesPassed s \<le> gatesPassed (snd (markPassed g s))"
proof (cases "\<not> hasPassed g \<and> gx g + GATE_WIDTH < LINE_X_POSITION")
  case False
  then have "markPassed g s = (g, s)" by (auto simp add: markPassed_def)
  with assms show ?thesis by simp
next
  case True
  show ?thesis
  proof (cases "Suc (gatesPassed s) mod DIFFICULTY_GATE_THRESHOLD = 0")
    case hit: True
    have "snd (markPassed g s) =
            s\<lparr>gatesPassed := Suc (gatesPassed s), currentScore := Suc (gatesPassed s),
              st_score := Suc (gatesPassed s), difficultyLevel := difficultyLevel s + 1,
              baseSpeed := speedAtLevel (difficultyLevel s + 1)\<rparr>"
      using True hit by (simp add: markPassed_def Let_def speedAtLevel_def)
    moreover have "speedAtLevel (difficultyLevel s) \<le> speedAtLevel (difficultyLevel s + 1)"
      by (rule speedAtLevel_mono) simp
    ultimately show ?thesis
      using assms hit by (simp add: onSchedule_def levelAfter_Suc)
  next
    case miss: False
    have "snd (markPassed g s) =
            s\<lparr>gatesPassed := Suc (gatesPassed s), currentScore := Suc (gatesPassed s),
              st_score := Suc (gatesPassed s)\<rparr>"
      using True miss by (simp add: markPassed_def Let_def)
    then show ?thesis
      using assms miss by (simp add: onSchedule_def levelAfter_Suc)
  qed
qed

lemma onSchedule_cong:
  "gatesPassed u = gatesPassed s \<Longrightarrow> difficultyLevel u = difficultyLevel s \<Longrightarrow>
   baseSpeed u = baseSpeed s \<Longrightarrow> onSchedule u = onSchedule s"
  by (simp add: onSchedule_def)

lemma gateCallback_schedule:
  assumes "onSchedule s"
  shows "onSchedule (snd (snd (gateCallback t g s))) \<and>
         baseSpeed s \<le> baseSpeed (snd (snd (gateCallback t g s))) \<and>
         gatesPassed s \<le> gatesPassed (snd (snd (gateCallback t g s)))"
proof -
  let ?g2 = "fst (advanceGate t g s)" and ?s1 = "snd (advanceGate t g s)"
  let ?ov = "overlapsLine (g\<lparr>gx := gx g - currentSpeed s\<rparr>)"
  have s1: "onSchedule ?s1" "baseSpeed ?s1 = baseSpeed s" "gatesPassed ?s1 = gatesPassed s"
    using assms by (simp_all add: onSchedule_def)
  consider (hit) "?ov" "collision s g"
    | (take) "?ov" "\<not> collision s g" "tokenInReach s g"
    | (plain) "\<not> (?ov \<and> (collision s g \<or> tokenInReach s g))"
    by blast
  then show ?thesis
  proof cases
    case hit
    then have "snd (snd (gateCallback t g s)) = endRun ?s1"
      by (simp add: gateCallback_collide)
    with s1 show ?thesis by (simp add: onSchedule_def)
  next
    case take
    let ?c = "collectToken t ?g2 ?s1"
    have c: "onSchedule (snd ?c)" "baseSpeed (snd ?c) = baseSpeed s"
      "gatesPassed (snd ?c) = gatesPassed s"
      using s1 by (simp_all add: onSchedule_def)
    from markPassed_schedule [OF c(1), of "fst ?c"] c(2,3) gateCallback_collect [OF take, of t]
    show ?thesis by simp
  next
    case plain
    from markPassed_schedule [OF s1(1), of ?g2] s1(2,3) gateCallback_plain [OF plain, of t]
    show ?thesis by simp
  qed
qed

lemma filterGates_schedule:
  "onSchedule s \<Longrightarrow>
     onSchedule (snd (filterGates t gs s)) \<and> baseSpeed s \<le> baseSpeed (snd (filterGates t gs s)) \<and>
     gatesPassed s \<le> gatesPassed (snd (filterGates t gs s))"
proof (induction gs arbitrary: s)
  case Nil
  then show ?case by simp
next
  case (Cons a gs)
  let ?s' = "snd (snd (gateCallback t a s))"
  from gateCallback_schedule [OF Cons.prems, of t a]
  have a: "onSchedule ?s'" "baseSpeed s \<le> baseSpeed ?s'" "gatesPassed s \<le> gatesPassed ?s'"
    by simp_all
  from Cons.IH [OF a(1)] a(2,3) show ?case
    by (simp add: split_beta)
qed

lemma gameLoop_schedule:
  assumes "onSchedule s"
  shows "onSchedule (gameLoop t r s) \<and> baseSpeed s \<le> baseSpeed (gameLoop t r s) \<and>
         gatesPassed s \<le> gatesPassed (gameLoop t r s)"
proof -
  let ?u = "spawnIfDue r (integrate (velocityStep t r s))"
  have u: "onSchedule ?u" "baseSpeed ?u = baseSpeed s" "gatesPassed ?u = gatesPassed s"
    using assms by (simp_all add: onSchedule_def)
  let ?w = "snd (filterGates t (gates ?u) ?u)"
  from filterGates_schedule [OF u(1), of t "gates ?u"] u(2,3)
  have w: "onSchedule ?w" "baseSpeed s \<le> baseSpeed ?w" "gatesPassed s \<le> gatesPassed ?w"
    by simp_all
  have "baseSpeed (gameLoop t r s) = baseSpeed ?w" "gatesPassed (gameLoop t r s) = gatesPassed ?w"
       "difficultyLevel (gameLoop t r s) = difficultyLevel ?w"
    by (simp_all add: gameLoop_def updateGates_def split_beta)
  with w show ?thesis by (simp add: onSchedule_def)
qed

lemma reachable_schedule: "reachable s \<Longrightarrow> onSchedule s"
proof (induction rule: reachable.induct)
  case (reachable_mount hs hc)
  show ?case
    by (simp add: onSchedule_def mount_def levelAfter_def speedAtLevel_def)
next
  case (reachable_step s e)
  show ?case
  proof (cases e)
    case (StartGame r)
    with reachable_step show ?thesis
      by (simp add: onSchedule_def startLoop_def handleStartGame_def levelAfter_def speedAtLevel_def)
  next
    case Impulse
    with reachable_step show ?thesis
      by (simp add: onSchedule_def handleInput_def)
  next
    case (Frame t r)
    with reachable_step gameLoop_schedule [of s t r] show ?thesis by simp
  qed
qed

section \<open>The runs follow the machine\<close>

lemma milli_less [simp]: "milli a < milli b \<longleftrightarrow> a < b"
  by (simp add: milli_def divide_less_cancel)

lemma milli_le [simp]: "milli a \<le> milli b \<longleftrightarrow> a \<le> b"
  by (simp add: milli_def divide_le_cancel)

lemma milli_eq [simp]: "milli a = milli b \<longleftrightarrow> a = b"
  by (simp add: milli_def)

lemma milli_add: "milli a + milli b = milli (a + b)"
  by (simp add: milli_def add_divide_distrib)

lemma milli_diff: "milli a - milli b = milli (a - b)"
  by (simp add: milli_def diff_divide_distrib)

lemma milli_consts:
  "(0::real) = milli 0" "(50::real) = milli 50000" "(100::real) = milli 100000"
  "(200::real) = milli 200000" "(350::real) = milli 350000" "(600::real) = milli 600000"
  "(800::real) = milli 800000" "(300::real) = milli 300000" "(150::real) = milli 150000"
  by (simp_all add: milli_def)

lemma milli_game:
  "GRAVITY = milli 220" "BOUNCE_VELOCITY = milli (- 5500)" "GATE_WIDTH = milli 50000"
  "LINE_X_POSITION = milli 100000" "GAME_HEIGHT = milli 600000" "GAME_WIDTH = milli 800000"
  "GATE_DISTANCE = milli 200000"
  by (simp_all add: milli_def game_constants)

lemmas milli_arith = milli_consts milli_add milli_diff

lemma cruise_keeps [simp]:
  "lineVelocity (snd (advanceGate t g s)) = lineVelocity s"
  "chaosMode (snd (advanceGate t g s)) = chaosMode s"
  "lastGateX (snd (advanceGate t g s)) =
     (if gx g - currentSpeed s > lastGateX s - GATE_WIDTH then gx g - currentSpeed s else lastGateX s)"
  "isFlashing (fst (advanceGate t g s)) = (if flashingGates s then \<lfloor>t / 200\<rfloor> mod 2 = 0 else False)"
  "lineVelocity (snd (markPassed g s)) = lineVelocity s"
  "chaosMode (snd (markPassed g s)) = chaosMode s"
  "activeEffects (snd (markPassed g s)) = activeEffects s"
  "isFlashing (fst (markPassed g s)) = isFlashing g"
  "hasPassed (fst (markPassed g s)) = (hasPassed g \<or> gx g + GATE_WIDTH < LINE_X_POSITION)"
  by (auto simp add: advanceGate_def markPassed_def Let_def)

lemma markPassed_count:
  "gatesPassed (snd (markPassed g s)) =
     (if \<not> hasPassed g \<and> gx g + GATE_WIDTH < LINE_X_POSITION then Suc (gatesPassed s) else gatesPassed s)"
  by (simp add: markPassed_def Let_def)

lemma milli_sign [simp]: "milli a < 0 \<longleftrightarrow> a < 0"
  by (simp add: milli_def)

lemma gateCallback_keep:
  assumes "\<not> (overlapsLine (g\<lparr>gx := gx g - currentSpeed s\<rparr>) \<and> collision s g)"
  shows "fst (gateCallback t g s) \<longleftrightarrow> gx g - currentSpeed s + GATE_WIDTH > 0"
  using assms by (auto simp add: gateCallback_def split_beta)

lemma goldOnly_simps [simp]:
  "goldOnly []"
  "goldOnly (es @ [\<lparr>etype = HBAR, endTime = a\<rparr>]) = goldOnly es"
  "goldOnly es \<Longrightarrow> goldOnly (filter P es)"
  by (simp_all add: goldOnly_def list_all_iff)

lemma applyRules_gold:
  "goldOnly es \<Longrightarrow> applyRules es s = s\<lparr>isGoldMode := es \<noteq> [] \<or> isGoldMode s\<rparr>"
  by (induction es arbitrary: s) (simp_all add: goldOnly_def)

lemma collectToken_gold:
  assumes "tokenType g = HBAR"
  shows "snd (collectToken t g s) =
           s\<lparr>activeEffects := activeEffects s @ [\<lparr>etype = HBAR, endTime = t + 10000\<rparr>],
             screenFlashTime := t,
             tokenCountsRef := (tokenCountsRef s)\<lparr>hbar := hbar (tokenCountsRef s) + 1\<rparr>,
             st_tokenCounts := (st_tokenCounts s)\<lparr>hbar := hbar (st_tokenCounts s) + 1\<rparr>\<rparr>"
  using assms by (simp add: collectToken_def pushEffect_def Let_def)

lemma cruise_callback:
  assumes mid: "midFrame u y v sp lx n h"
    and safe: "\<not> (50000 \<le> x - sp \<and> x - sp \<le> 100000 \<and> (y \<le> 200000 \<or> 350000 \<le> y))"
  shows "fst (gateCallback t (cruiseGate (x, p, g)) u) \<longleftrightarrow> - 50000 < x - sp"
    and "fst (snd (gateCallback t (cruiseGate (x, p, g)) u)) =
           cruiseGate (x - sp, p \<or> x - sp < 50000, g \<and> \<not> cruiseTake (x - sp) y g)"
    and "midFrame (snd (snd (gateCallback t (cruiseGate (x, p, g)) u))) y v sp
           (if lx - 50000 < x - sp then x - sp else lx)
           (if \<not> p \<and> x - sp < 50000 then n + 1 else n)
           (if cruiseTake (x - sp) y g then h + 1 else h)"
    and "ls_highestTokenCounts (snd (snd (gateCallback t (cruiseGate (x, p, g)) u))) =
           ls_highestTokenCounts u"
proof -
  let ?g = "cruiseGate (x, p, g)"
  from mid have f: "st_gameState u = PLAYING" "lineY u = milli y"
    "lineVelocity u = milli v" "currentSpeed u = milli sp"
    "lastGateX u = milli lx" "0 \<le> n" "gatesPassed u = nat n" "onSchedule u"
    "\<not> solEffectActive u" "\<not> btcEffectActive u" "\<not> flashingGates u"
    "goldOnly (activeEffects u)" "\<not> chaosMode u"
    "0 \<le> h" "tokenCountsRef u = zeroCounts\<lparr>hbar := nat h\<rparr>"
    by (simp_all add: midFrame_def)
  have moved: "gx ?g - currentSpeed u = milli (x - sp)"
    by (simp add: cruiseGate_def f(4) milli_diff)
  have ov: "overlapsLine (?g\<lparr>gx := gx ?g - currentSpeed u\<rparr>) \<longleftrightarrow>
              50000 \<le> x - sp \<and> x - sp \<le> 100000"
    unfolding overlapsLine_def by (simp add: moved game_constants milli_arith) linarith
  have co: "collision u ?g \<longleftrightarrow> y \<le> 200000 \<or> 350000 \<le> y"
    by (simp add: collision_def actualGateGap_def f cruiseGate_def milli_arith)
  have tr: "tokenInReach u ?g \<longleftrightarrow> g \<and> 225000 < y \<and> y < 325000"
  proof -
    have "\<bar>milli y - 275\<bar> < 50 \<longleftrightarrow> 225000 < y \<and> y < 325000"
      by (auto simp add: milli_def abs_less_iff)
    then show ?thesis
      by (simp add: tokenInReach_def tokenY_def actualGateGap_def f cruiseGate_def
          TOKEN_COLLECTION_RADIUS_def)
  qed
  have nocol: "\<not> (overlapsLine (?g\<lparr>gx := gx ?g - currentSpeed u\<rparr>) \<and> collision u ?g)"
    using safe ov co by blast
  let ?a = "advanceGate t ?g u"
  have keep: "gx ?g - currentSpeed u + GATE_WIDTH > 0 \<longleftrightarrow> - 50000 < x - sp"
    by (simp add: moved game_constants milli_arith) linarith
  show "fst (gateCallback t ?g u) \<longleftrightarrow> - 50000 < x - sp"
    using gateCallback_keep [OF nocol, of t] keep by simp
  have ga: "gx (fst ?a) = milli (x - sp)" "hasPassed (fst ?a) = p"
    "topHeight (fst ?a) = 200" "baseGateGap (fst ?a) = 150"
    "tokenType (fst ?a) = (if g then HBAR else NONE)"
    "isFlashing (fst ?a) = False"
    using f(11) by (simp_all add: moved) (simp_all add: cruiseGate_def)
  have pass': "milli (x - sp) + GATE_WIDTH < LINE_X_POSITION \<longleftrightarrow> x - sp < 50000"
    by (simp add: game_constants milli_arith)
  then have pass: "gx (fst ?a) + GATE_WIDTH < LINE_X_POSITION \<longleftrightarrow> x - sp < 50000"
    by (simp add: moved)
  have moved': "gx ?g - milli sp = milli (x - sp)"
    using moved by (simp add: f(4))
  have lg: "lastGateX (snd ?a) = milli (if lx - 50000 < x - sp then x - sp else lx)"
    by (simp add: moved' f game_constants milli_arith)
  have nn: "0 \<le> (if \<not> p \<and> x - sp < 50000 then n + 1 else n)"
    using f(6) by simp
  have a_sch: "onSchedule (snd ?a)"
    using f(8) by (simp add: onSchedule_cong [of "snd ?a" u])
  have rest: "fst (snd (gateCallback t ?g u)) =
          cruiseGate (x - sp, p \<or> x - sp < 50000, g \<and> \<not> cruiseTake (x - sp) y g) \<and>
       midFrame (snd (snd (gateCallback t ?g u))) y v sp
           (if lx - 50000 < x - sp then x - sp else lx)
           (if \<not> p \<and> x - sp < 50000 then n + 1 else n)
           (if cruiseTake (x - sp) y g then h + 1 else h) \<and>
       ls_highestTokenCounts (snd (snd (gateCallback t ?g u))) = ls_highestTokenCounts u"
    proof (cases "cruiseTake (x - sp) y g")
      case True
      then have tk: "g" "50000 \<le> x - sp" "x - sp \<le> 100000" "225000 < y" "y < 325000"
        by (simp_all add: cruiseTake_def)
      let ?c = "collectToken t (fst ?a) (snd ?a)"
      have g2: "tokenType (fst ?a) = HBAR" using ga(5) tk(1) by simp
      have "overlapsLine (?g\<lparr>gx := gx ?g - currentSpeed u\<rparr>)" "\<not> collision u ?g"
        "tokenInReach u ?g"
        using ov co tr tk by simp_all
      then have res: "snd (gateCallback t ?g u) = markPassed (fst ?c) (snd ?c)"
        by (rule gateCallback_collect)
      have "\<not> (gx (fst ?c) + GATE_WIDTH < LINE_X_POSITION)"
        using tk(2) pass' by (simp add: moved)
      then have mp: "markPassed (fst ?c) (snd ?c) = (fst ?c, snd ?c)"
        by (simp add: markPassed_def)
      have cs: "snd ?c =
           (snd ?a)\<lparr>activeEffects := activeEffects (snd ?a) @ [\<lparr>etype = HBAR, endTime = t + 10000\<rparr>],
             screenFlashTime := t,
             tokenCountsRef := (tokenCountsRef (snd ?a))\<lparr>hbar := hbar (tokenCountsRef (snd ?a)) + 1\<rparr>,
             st_tokenCounts := (st_tokenCounts (snd ?a))\<lparr>hbar := hbar (st_tokenCounts (snd ?a)) + 1\<rparr>\<rparr>"
        using g2 by (rule collectToken_gold)
      have cnt: "(tokenCountsRef (snd ?a))\<lparr>hbar := hbar (tokenCountsRef (snd ?a)) + 1\<rparr> =
                 zeroCounts\<lparr>hbar := nat (h + 1)\<rparr>"
        using f(14,15) by (simp add: zeroCounts_def nat_add_distrib)
      have gate: "fst (snd (gateCallback t ?g u)) = cruiseGate (x - sp, p \<or> x - sp < 50000, False)"
        using tk(2)
        by (intro Gate.equality) (simp_all add: res mp pass' moved f(11), simp_all add: cruiseGate_def)
      have sch: "onSchedule (snd ?c)"
        using a_sch by (simp add: onSchedule_cong [of "snd ?c" "snd ?a"])
      have st: "midFrame (snd (snd (gateCallback t ?g u))) y v sp
           (if lx - 50000 < x - sp then x - sp else lx) n (h + 1)"
        unfolding midFrame_def res mp
        using f sch lg tk(2) cnt by (simp add: cs)
      have ls: "ls_highestTokenCounts (snd (snd (gateCallback t ?g u))) = ls_highestTokenCounts u"
        unfolding res mp by simp
      from gate st ls True tk(2) show ?thesis by simp
    next
      case False
      with ov tr have plain: "\<not> (overlapsLine (?g\<lparr>gx := gx ?g - currentSpeed u\<rparr>) \<and>
                  (collision u ?g \<or> tokenInReach u ?g))"
        using nocol by (auto simp add: cruiseTake_def)
      have res: "snd (gateCallback t ?g u) = markPassed (fst ?a) (snd ?a)"
        using plain by (rule gateCallback_plain)
      have gate: "fst (snd (gateCallback t ?g u)) = cruiseGate (x - sp, p \<or> x - sp < 50000, g)"
        by (rule Gate.equality) (simp_all add: res pass' moved f(11), simp_all add: cruiseGate_def)
      have sch: "onSchedule (snd (markPassed (fst ?a) (snd ?a)))"
        using markPassed_schedule [of "snd ?a" "fst ?a"] a_sch by simp
      have cnt: "gatesPassed (snd (markPassed (fst ?a) (snd ?a))) =
          nat (if \<not> p \<and> x - sp < 50000 then n + 1 else n)"
      proof -
        have "gatesPassed (snd ?a) = nat n" by (simp add: f(7))
        then have "gatesPassed (snd (markPassed (fst ?a) (snd ?a))) =
            (if \<not> p \<and> x - sp < 50000 then Suc (nat n) else nat n)"
          unfolding markPassed_count ga(2) pass by simp
        moreover have "Suc (nat n) = nat (n + 1)" using f(6) by simp
        ultimately show ?thesis by simp
      qed
      have st: "midFrame (snd (snd (gateCallback t ?g u))) y v sp
           (if lx - 50000 < x - sp then x - sp else lx)
           (if \<not> p \<and> x - sp < 50000 then n + 1 else n) h"
        unfolding midFrame_def res
        using f sch lg cnt nn by simp
      have ls: "ls_highestTokenCounts (snd (snd (gateCallback t ?g u))) = ls_highestTokenCounts u"
        unfolding res by simp
      from gate st ls False show ?thesis by simp
    qed
  from rest show "fst (snd (gateCallback t ?g u)) =
          cruiseGate (x - sp, p \<or> x - sp < 50000, g \<and> \<not> cruiseTake (x - sp) y g)"
    by simp
  from rest show "midFrame (snd (snd (gateCallback t ?g u))) y v sp
           (if lx - 50000 < x - sp then x - sp else lx)
           (if \<not> p \<and> x - sp < 50000 then n + 1 else n)
           (if cruiseTake (x - sp) y g then h + 1 else h)"
    by simp
  from rest show "ls_highestTokenCounts (snd (snd (gateCallback t ?g u))) = ls_highestTokenCounts u"
    by simp
qed

lemma cruise_filter:
  assumes "midFrame u y v sp lx n h" and "cruiseGates sp y gs lx n h = Some (gs', lx', n', h')"
  shows "fst (filterGates t (map cruiseGate gs) u) = map cruiseGate gs' \<and>
         midFrame (snd (filterGates t (map cruiseGate gs) u)) y v sp lx' n' h' \<and>
         ls_highestTokenCounts (snd (filterGates t (map cruiseGate gs) u)) = ls_highestTokenCounts u"
  using assms
proof (induction gs arbitrary: u lx n h gs' lx' n' h')
  case Nil
  then show ?case by simp
next
  case (Cons xpg gs)
  obtain x p g where xp: "xpg = (x, p, g)" by (cases xpg)
  let ?lx = "if lx - 50000 < x - sp then x - sp else lx"
  let ?n = "if \<not> p \<and> x - sp < 50000 then n + 1 else n"
  let ?h = "if cruiseTake (x - sp) y g then h + 1 else h"
  let ?g = "g \<and> \<not> cruiseTake (x - sp) y g"
  from Cons.prems(2) xp
  have safe: "\<not> (50000 \<le> x - sp \<and> x - sp \<le> 100000 \<and> (y \<le> 200000 \<or> 350000 \<le> y))"
    by (auto split: if_splits)
  with Cons.prems(2) xp
  have "cruiseKeep (x - sp) (p \<or> x - sp < 50000) ?g (cruiseGates sp y gs ?lx ?n ?h) =
          Some (gs', lx', n', h')"
    by (simp split: if_splits)
  then obtain gs0 where rest: "cruiseGates sp y gs ?lx ?n ?h = Some (gs0, lx', n', h')"
    and gs': "gs' = (if - 50000 < x - sp then (x - sp, p \<or> x - sp < 50000, ?g) # gs0 else gs0)"
    by (cases "cruiseGates sp y gs ?lx ?n ?h") auto
  note cb = cruise_callback [OF Cons.prems(1) safe, of t p g]
  let ?u' = "snd (snd (gateCallback t (cruiseGate (x, p, g)) u))"
  from Cons.IH [OF cb(3) rest]
  have ih: "fst (filterGates t (map cruiseGate gs) ?u') = map cruiseGate gs0"
    "midFrame (snd (filterGates t (map cruiseGate gs) ?u')) y v sp lx' n' h'"
    "ls_highestTokenCounts (snd (filterGates t (map cruiseGate gs) ?u')) = ls_highestTokenCounts ?u'"
    by simp_all
  show ?case
    using cb(1,2,4) ih by (simp add: xp gs' split_beta)
qed

lemma noRolls_gate:
  "initializeGate noRolls s =
     s\<lparr>lastTokenType := NONE, gates := gates s @ [cruiseGate (800000, False, False)],
       lastGateX := 800\<rparr>"
  by (simp add: initializeGate_def noRolls_def newTopHeight_def getRandomVerticalVariance_def
      getRandomTokenType_def cruiseGate_def milli_def Let_def game_constants)

lemma cruise_speed:
  assumes "onSchedule s" and "gatesPassed s = nat n" and "0 \<le> n" and "n < 30"
  shows "baseSpeed s = milli (if n < 15 then 2530 else 2783)"
proof (cases "n < 15")
  case True
  then have "nat n div 15 = 0" by simp
  with assms True show ?thesis
    by (simp add: onSchedule_def levelAfter_def speedAtLevel_def milli_def game_constants)
next
  case False
  with assms have "15 \<le> nat n" "nat n < 30" by simp_all
  then have "nat n div 15 = 1" by (intro div_nat_eqI) simp_all
  with assms(1,2) have "difficultyLevel s = 2"
    by (simp add: onSchedule_def levelAfter_def DIFFICULTY_GATE_THRESHOLD_def)
  with assms(1) have "baseSpeed s = GATE_SPEED * (1 + (real 2 - 1) * DIFFICULTY_INCREASE)"
    by (simp add: onSchedule_def speedAtLevel_def)
  with False show ?thesis
    by (simp add: milli_def game_constants)
qed

text \<open>
  A frame of a tracked run up to and including the pass over the gates, when the machine's
  pass succeeds.
\<close>

lemma cruise_pass:
  assumes tr: "tracks s (y, v, gs, lx, n, h)" and n: "n < 30"
    and g: "cruisePass (y + (v + 220)) gs lx n h = Some (gs', lx', n', h')"
  shows "gates (updateGates t (spawnIfDue noRolls (integrate (velocityStep t noRolls s)))) =
           map cruiseGate gs'"
    and "midFrame (updateGates t (spawnIfDue noRolls (integrate (velocityStep t noRolls s))))
           (y + (v + 220)) (v + 220) (if n < 15 then 2530 else 2783) lx' n' h'"
    and "ls_highestTokenCounts (updateGates t (spawnIfDue noRolls (integrate (velocityStep t noRolls s)))) =
           ls_highestTokenCounts s"
proof -
  let ?v = "v + 220" and ?y = "y + (v + 220)"
  let ?sp = "if n < 15 then 2530 else (2783 :: int)"
  let ?gs = "if lx \<le> 600000 then gs @ [(800000, False, False)] else gs"
  let ?lx = "if lx \<le> 600000 then 800000 else lx"
  let ?live = "filter (\<lambda>effect. endTime effect > t) (activeEffects s)"
  from tr have f: "st_gameState s = PLAYING" "lineY s = milli y" "lineVelocity s = milli v"
    "gates s = map cruiseGate gs" "lastGateX s = milli lx" "0 \<le> n" "gatesPassed s = nat n"
    "onSchedule s" "goldOnly (activeEffects s)" "\<not> chaosMode s"
    "0 \<le> h" "tokenCountsRef s = zeroCounts\<lparr>hbar := nat h\<rparr>"
    by simp_all
  from g have g': "cruiseGates ?sp ?y ?gs ?lx n h = Some (gs', lx', n', h')"
    by (simp add: cruisePass_def)
  let ?u = "spawnIfDue noRolls (integrate (velocityStep t noRolls s))"
  have live: "goldOnly ?live" using f(9) by simp
  have vs: "velocityStep t noRolls s =
      s\<lparr>activeEffects := ?live, currentSpeed := baseSpeed s, isGoldMode := ?live \<noteq> [],
        flashingGates := False, btcEffectActive := False, solEffectActive := False,
        lineVelocity := milli ?v\<rparr>"
    using f(3,10)
    by (simp add: velocityStep_def processEffects_def applyGravity_def applyChaos_def
        applyRules_gold [OF live] Let_def milli_game milli_add)
  have sp: "baseSpeed s = milli ?sp"
    using f(8,7,6) n by (rule cruise_speed)
  have due: "lastGateX s \<le> GAME_WIDTH - GATE_DISTANCE \<longleftrightarrow> lx \<le> 600000"
    by (simp add: f(5) milli_game milli_diff)
  have ug: "gates ?u = map cruiseGate ?gs"
    by (simp add: spawnIfDue_def noRolls_gate due f(4))
  have us: "ls_highestTokenCounts ?u = ls_highestTokenCounts s"
    by simp
  have um: "midFrame ?u ?y ?v ?sp ?lx n h"
    unfolding midFrame_def
    using f sp due live
    by (simp add: spawnIfDue_def noRolls_gate vs integrate_def Let_def onSchedule_def
        milli_arith)
  from cruise_filter [OF um g', of t] ug us
  have w: "fst (filterGates t (gates ?u) ?u) = map cruiseGate gs'"
    "midFrame (snd (filterGates t (gates ?u) ?u)) ?y ?v ?sp lx' n' h'"
    "ls_highestTokenCounts (snd (filterGates t (gates ?u) ?u)) = ls_highestTokenCounts s"
    by simp_all
  show "gates (updateGates t ?u) = map cruiseGate gs'"
    using w(1) by (simp add: updateGates_def split_beta)
  show "midFrame (updateGates t ?u) ?y ?v ?sp lx' n' h'"
    using w(2) by (simp add: updateGates_def split_beta midFrame_def onSchedule_def)
  show "ls_highestTokenCounts (updateGates t ?u) = ls_highestTokenCounts s"
    using w(3) by (simp add: updateGates_def split_beta)
qed

lemma cruise_frame:
  assumes tr: "tracks s c" and fr: "cruiseFrame c = Some c'"
  shows "tracks (gameLoop t noRolls s) c'"
proof -
  obtain y v gs lx n h where c: "c = (y, v, gs, lx, n, h)" by (cases c)
  let ?v = "v + 220" and ?y = "y + (v + 220)"
  from fr c have b: "\<not> ?y < 0" "\<not> 600000 < ?y" "n < 30"
    by (auto simp add: cruiseVel_def cruiseFall_def split: if_splits)
  with fr c obtain gs' lx' n' h' where
    g: "cruisePass ?y gs lx n h = Some (gs', lx', n', h')" and c': "c' = (?y, ?v, gs', lx', n', h')"
    by (cases "cruisePass ?y gs lx n h") (auto simp add: cruiseVel_def cruiseFall_def)
  let ?w = "updateGates t (spawnIfDue noRolls (integrate (velocityStep t noRolls s)))"
  note w = cruise_pass [OF tr [unfolded c] b(3) g, of t]
  from w(2) have ly: "lineY ?w = milli ?y"
    unfolding midFrame_def by blast
  have inb: "\<not> outOfBounds ?w"
    unfolding outOfBounds_def ly using b(1,2) by (simp add: milli_game)
  have "gameLoop t noRolls s = ?w\<lparr>frameRequested := True\<rparr>"
    using inb by (simp add: gameLoop_def boundsCheck_def)
  then show ?thesis
    using w(1,2) by (simp add: c' midFrame_def onSchedule_def)
qed

lemma cruise_impulse:
  assumes "tracks s c" and "cruiseImpulse c = Some c'"
  shows "tracks (handleInput s) c'"
  using assms by (cases c) (auto simp add: handleInput_def onSchedule_def milli_game)

lemma cruiseSeq_assoc: "cruiseSeq (cruiseSeq f g) h = cruiseSeq f (cruiseSeq g h)"
  by (rule ext) (simp add: cruiseSeq_def [abs_def])

lemma cruiseSeq_Some [simp]: "cruiseSeq f Some = f" "cruiseSeq Some f = f"
  by (rule ext, simp add: cruiseSeq_def)+

lemma cruiseFrames_add: "cruiseFrames (a + b) = cruiseSeq (cruiseFrames a) (cruiseFrames b)"
  by (induction a) (simp_all add: cruiseSeq_assoc)

lemma cruiseHops_add: "cruiseHops (a + b) = cruiseSeq (cruiseHops a) (cruiseHops b)"
  by (induction a) (simp_all add: cruiseSeq_assoc)

lemma cruiseFrames_7: "cruiseFrames 7 = cruise7"
  by (simp add: eval_nat_numeral cruise7_def)

lemma cruiseFrames_49: "cruiseFrames 49 = cruise49"
proof -
  have "cruiseFrames 49 = cruiseFrames (7 + (7 + (7 + (7 + (7 + (7 + 7))))))"
    by (rule arg_cong [where f = cruiseFrames]) simp
  also have "\<dots> = cruise49"
    unfolding cruiseFrames_add cruiseFrames_7 cruise49_def ..
  finally show ?thesis .
qed

lemma cruiseHops_1: "cruiseHops 1 = cruiseHop"
  by (simp add: cruiseHop_def cruiseFrames_49)

lemma cruiseHops_4: "cruiseHops 4 = cruiseHop4"
proof -
  have "cruiseHops 4 = cruiseHops (1 + (1 + (1 + 1)))"
    by (rule arg_cong [where f = cruiseHops]) simp
  also have "\<dots> = cruiseHop4"
    unfolding cruiseHops_add cruiseHops_1 cruiseHop4_def ..
  finally show ?thesis .
qed

lemma cruiseHops_28: "cruiseHops 28 = cruiseHop28"
proof -
  have "cruiseHops 28 = cruiseHops (4 + (4 + (4 + (4 + (4 + (4 + 4))))))"
    by (rule arg_cong [where f = cruiseHops]) simp
  also have "\<dots> = cruiseHop28"
    unfolding cruiseHops_add cruiseHops_4 cruiseHop28_def ..
  finally show ?thesis .
qed

lemma cruiseHops_29: "cruiseHops 29 = cruiseSeq cruiseHop28 cruiseHop"
proof -
  have "cruiseHops 29 = cruiseHops (28 + 1)"
    by (rule arg_cong [where f = cruiseHops]) simp
  also have "\<dots> = cruiseSeq cruiseHop28 cruiseHop"
    unfolding cruiseHops_add cruiseHops_28 cruiseHops_1 ..
  finally show ?thesis .
qed

lemma run_append: "run (es @ fs) s = run fs (run es s)"
  by (induction es arbitrary: s) simp_all

lemma reachable_run: "reachable s \<Longrightarrow> reachable (run es s)"
  by (induction es arbitrary: s) (simp_all add: reachable_step)

lemma tracks_playing: "tracks s c \<Longrightarrow> st_gameState s = PLAYING"
  by (cases c) simp

lemma tracks_frames:
  "tracks s c \<Longrightarrow> cruiseFrames k c = Some c' \<Longrightarrow> tracks (run (frames k t) s) c'"
proof (induction k arbitrary: s c t)
  case 0
  then show ?case by simp
next
  case (Suc k)
  from Suc.prems(2) obtain c1 where c1: "cruiseFrame c = Some c1" "cruiseFrames k c1 = Some c'"
    by (auto simp add: cruiseSeq_def split: Option.bind_splits)
  have "tracks (gameLoop t noRolls s) c1"
    using Suc.prems(1) c1(1) by (rule cruise_frame)
  from Suc.IH [OF this c1(2)] tracks_playing [OF Suc.prems(1)] show ?case by simp
qed

lemma tracks_hops:
  "tracks s c \<Longrightarrow> cruiseHops k c = Some c' \<Longrightarrow> tracks (run (hops k t) s) c'"
proof (induction k arbitrary: s c t)
  case 0
  then show ?case by simp
next
  case (Suc k)
  from Suc.prems(2) obtain c1 c2 where c: "cruiseImpulse c = Some c1" "cruiseFrames 49 c1 = Some c2"
    "cruiseHops k c2 = Some c'"
    by (auto simp add: cruiseSeq_def split: Option.bind_splits)
  have "tracks (handleInput s) c1"
    using Suc.prems(1) c(1) by (rule cruise_impulse)
  then have "tracks (run (frames 49 t) (handleInput s)) c2"
    using c(2) by (rule tracks_frames)
  from Suc.IH [OF this c(3)] tracks_playing [OF Suc.prems(1)] show ?case
    by (simp add: run_append)
qed

lemmas cruise_eval =
  cruiseKeep.simps cruiseTake_def cruiseGates.simps cruiseFramed.simps cruisePass_def cruiseFall_def
  cruiseVel_def cruiseFrame.simps cruiseImpulse.simps cruiseCount.simps cruiseOut_def cruiseExit.simps
  cruise7_def cruise49_def cruiseHop_def cruiseHop4_def cruiseHop28_def cruise82_def cruise51_def
  cruiseGold_def cruiseSeq_def cruiseStart_def goldStart_def
  Option.bind.simps if_True if_False simp_thms
  arith_simps rel_simps append.simps one_add_one numeral_plus_one semiring_norm

lemma cruise_28:
  "cruiseHop28 cruiseStart =
     Some (300000, 5280,
           [(- 39960, True, False), (162440, False, False), (364840, False, False), (567240, False, False), (769640, False, False)],
           769640, 14, 0)"
  by (simp only: cruise_eval)

lemma freshRun_tracks: "tracks freshRun cruiseStart"
  using reachable_schedule [OF freshRun_reachable]
  by (simp add: cruiseStart_def freshRun_fields cruiseGate_def milli_def zeroCounts_def)

lemma cruise_29:
  "cruiseHop (300000, 5280,
         [(- 39960, True, False), (162440, False, False), (364840, False, False), (567240, False, False), (769640, False, False)],
         769640, 14, 0) =
     Some (300000, 5280,
           [(37458, True, False), (239858, False, False), (442258, False, False), (644658, False, False)], 644658, 15, 0)"
  by (simp only: cruise_eval)

lemma after_28_hops:
  "reachable (run (hops 28 0) freshRun)" "gatesPassed (run (hops 28 0) freshRun) = 14"
proof -
  show "reachable (run (hops 28 0) freshRun)"
    using freshRun_reachable by (rule reachable_run)
  have "cruiseHops 28 cruiseStart =
     Some (300000, 5280,
           [(- 39960, True, False), (162440, False, False), (364840, False, False), (567240, False, False), (769640, False, False)],
           769640, 14, 0)"
    by (simp only: cruiseHops_28 cruise_28)
  from tracks_hops [OF freshRun_tracks this, of 0]
  show "gatesPassed (run (hops 28 0) freshRun) = 14" by simp
qed

lemma after_29_hops:
  "reachable (run (hops 29 0) freshRun)" "gatesPassed (run (hops 29 0) freshRun) = 15"
proof -
  show "reachable (run (hops 29 0) freshRun)"
    using freshRun_reachable by (rule reachable_run)
  have "cruiseHops 29 cruiseStart =
     Some (300000, 5280,
           [(37458, True, False), (239858, False, False), (442258, False, False), (644658, False, False)], 644658, 15, 0)"
    by (simp only: cruiseHops_29 cruiseSeq_def cruise_28 Option.bind.simps cruise_29)
  from tracks_hops [OF freshRun_tracks this, of 0]
  show "gatesPassed (run (hops 29 0) freshRun) = 15" by simp
qed

text \<open>
  Claim C1. In every state the component can reach, the difficulty level is one more than
  the number of full thresholds of 15 among the passages of the run, and the base speed is
  \<open>GATE_SPEED * (1 + (level - 1) * 0.1)\<close> for that level. So the base speed is the initial
  speed up to and including the 14th passage and the initial speed times 1.1 at the 15th;
  in closed form it never decreases with the number of passages, and no frame and no
  impulse of a run lowers it or the passage counter.
\<close>

theorem difficulty_schedule:
  assumes "reachable s"
  shows "difficultyLevel s = levelAfter (gatesPassed s) \<and>
         baseSpeed s = speedAtLevel (difficultyLevel s) \<and>
         (gatesPassed s \<le> 14 \<longrightarrow> baseSpeed s = GATE_SPEED) \<and>
         (gatesPassed s = 15 \<longrightarrow> baseSpeed s = GATE_SPEED * (11 / 10)) \<and>
         (\<forall>m n. m \<le> n \<longrightarrow> speedAtLevel (levelAfter m) \<le> speedAtLevel (levelAfter n)) \<and>
         gatesPassed s \<le> gatesPassed (step (Frame t r) s) \<and>
         baseSpeed s \<le> baseSpeed (step (Frame t r) s) \<and>
         baseSpeed (step Impulse s) = baseSpeed s"
proof -
  have sch: "onSchedule s" using assms by (rule reachable_schedule)
  then have lvl: "difficultyLevel s = levelAfter (gatesPassed s)"
    and spd: "baseSpeed s = speedAtLevel (difficultyLevel s)"
    by (simp_all add: onSchedule_def)
  have early: "gatesPassed s \<le> 14 \<longrightarrow> baseSpeed s = GATE_SPEED"
    using lvl spd by (simp add: speedAtLevel_def levelAfter_def DIFFICULTY_GATE_THRESHOLD_def)
  have fifteenth: "gatesPassed s = 15 \<longrightarrow> baseSpeed s = GATE_SPEED * (11 / 10)"
    using lvl spd
    by (simp add: speedAtLevel_def levelAfter_def DIFFICULTY_GATE_THRESHOLD_def
        DIFFICULTY_INCREASE_def)
  have mono: "\<forall>m n. m \<le> n \<longrightarrow> speedAtLevel (levelAfter m) \<le> speedAtLevel (levelAfter n)"
    by (simp add: speedAtLevel_mono levelAfter_mono)
  have frame: "gatesPassed s \<le> gatesPassed (step (Frame t r) s)"
              "baseSpeed s \<le> baseSpeed (step (Frame t r) s)"
    using gameLoop_schedule [OF sch, of t r] by simp_all
  have imp: "baseSpeed (step Impulse s) = baseSpeed s"
    by (simp add: handleInput_def)
  from lvl spd early fifteenth mono frame imp show ?thesis
    by blast
qed

text \<open>
  The theorem at the run through fifteen gates: after 28 hops (1372 frames) 14 gates have
  been passed and the base speed is still 2.53; after the 29th hop the 15th gate has been
  passed, the level is 2 and the base speed is 2.783.
\<close>

theorem difficulty_schedule_witness:
  "reachable (run (hops 28 0) freshRun) \<and> gatesPassed (run (hops 28 0) freshRun) = 14 \<and>
   baseSpeed (run (hops 28 0) freshRun) = 253 / 100 \<and>
   reachable (run (hops 29 0) freshRun) \<and> gatesPassed (run (hops 29 0) freshRun) = 15 \<and>
   difficultyLevel (run (hops 29 0) freshRun) = 2 \<and>
   baseSpeed (run (hops 29 0) freshRun) = 2783 / 1000"
proof -
  from difficulty_schedule [OF after_28_hops(1), of 0 noRolls]
  have "gatesPassed (run (hops 28 0) freshRun) \<le> 14 \<longrightarrow>
        baseSpeed (run (hops 28 0) freshRun) = GATE_SPEED"
    by blast
  then have a: "baseSpeed (run (hops 28 0) freshRun) = 253 / 100"
    by (simp add: after_28_hops(2) GATE_SPEED_def)
  from difficulty_schedule [OF after_29_hops(1), of 0 noRolls]
  have "gatesPassed (run (hops 29 0) freshRun) = 15 \<longrightarrow>
        baseSpeed (run (hops 29 0) freshRun) = GATE_SPEED * (11 / 10)"
    and "difficultyLevel (run (hops 29 0) freshRun) = levelAfter (gatesPassed (run (hops 29 0) freshRun))"
    by blast+
  then have b: "baseSpeed (run (hops 29 0) freshRun) = 2783 / 1000"
    "difficultyLevel (run (hops 29 0) freshRun) = 2"
    by (simp_all add: after_29_hops(2) GATE_SPEED_def levelAfter_def DIFFICULTY_GATE_THRESHOLD_def)
  from a b after_28_hops after_29_hops show ?thesis by simp
qed

section \<open>Collecting a token\<close>

lemma countOf_setCount:
  "countOf (setCount c k n) k' = (if k' = k \<and> k \<noteq> NONE then n else countOf c k')"
  by (cases k; cases k'; simp)

lemma collectToken_counts [simp]:
  "tokenCountsRef (snd (collectToken t g s)) =
     setCount (tokenCountsRef s) (tokenType g) (countOf (tokenCountsRef s) (tokenType g) + 1)"
  "st_tokenCounts (snd (collectToken t g s)) =
     setCount (st_tokenCounts s) (tokenType g) (countOf (st_tokenCounts s) (tokenType g) + 1)"
  by (simp_all add: collectToken_def Let_def)








section \<open>Best counts at the end of a run\<close>

lemma raiseHighest_True: "snd (raiseHighest cur ks (h, True)) = True"
  by (induction ks arbitrary: h) simp_all

lemma raiseHighest_flag:
  "snd (raiseHighest cur ks (h, b)) \<longleftrightarrow> b \<or> (\<exists>k\<in>set ks. countOf cur k > countOf h k)"
proof (induction ks arbitrary: h b)
  case Nil
  show ?case by simp
next
  case (Cons k ks)
  show ?case
  proof (cases "countOf cur k > countOf h k")
    case True
    then show ?thesis by (auto simp add: raiseHighest_True)
  next
    case False
    then show ?thesis by (simp add: Cons.IH)
  qed
qed

lemma raiseHighest_count:
  "countOf (fst (raiseHighest cur ks (h, b))) k =
     (if k \<in> set ks \<and> countOf cur k > countOf h k then countOf cur k else countOf h k)"
proof (induction ks arbitrary: h b)
  case Nil
  show ?case by simp
next
  case (Cons a ks)
  show ?case
  proof (cases "countOf cur a > countOf h a")
    case True
    then have "a \<noteq> NONE" by (cases a) simp_all
    with True show ?thesis
      by (auto simp add: Cons.IH countOf_setCount)
  next
    case False
    then show ?thesis by (auto simp add: Cons.IH)
  qed
qed

lemma endRun_best:
  "st_highestTokenCounts (endRun s) =
     (if \<exists>k\<in>set countKeys. countOf (tokenCountsRef s) k > countOf (highestTokenCounts s) k
      then fst (raiseHighest (tokenCountsRef s) countKeys (highestTokenCounts s, False))
      else st_highestTokenCounts s)"
  "ls_highestTokenCounts (endRun s) =
     (if \<exists>k\<in>set countKeys. countOf (tokenCountsRef s) k > countOf (highestTokenCounts s) k
      then Some (fst (raiseHighest (tokenCountsRef s) countKeys (highestTokenCounts s, False)))
      else ls_highestTokenCounts s)"
  using raiseHighest_flag [of "tokenCountsRef s" countKeys "highestTokenCounts s" False]
  by (auto simp add: endRun_def Let_def split_beta)

lemma raised_count:
  "countOf (fst (raiseHighest cur countKeys (h, False))) k =
     (if countOf cur k > countOf h k then countOf cur k else countOf h k)"
  by (cases k) (simp_all add: raiseHighest_count countKeys_def)

lemma bestInv_cong:
  assumes "ls_highestTokenCounts u = ls_highestTokenCounts s"
    and "st_highestTokenCounts u = st_highestTokenCounts s"
    and "highestTokenCounts u = highestTokenCounts s"
    and "tokenCountsRef u = tokenCountsRef s"
    and "st_gameState u = st_gameState s"
  shows "bestInv u = bestInv s"
  using assms by (simp add: bestInv_def persistedBest_def)

lemma markPassed_bestInv [simp]: "bestInv (snd (markPassed g s)) = bestInv s"
  by (rule bestInv_cong) simp_all

lemma advanceGate_bestInv [simp]: "bestInv (snd (advanceGate t g s)) = bestInv s"
  by (rule bestInv_cong) simp_all

lemma endRun_bestInv:
  assumes "bestInv s"
  shows "bestInv (endRun s) \<and>
         (\<forall>k. countOf (st_highestTokenCounts s) k \<le> countOf (st_highestTokenCounts (endRun s)) k)"
proof (cases "\<exists>k\<in>set countKeys. countOf (tokenCountsRef s) k > countOf (highestTokenCounts s) k")
  case True
  let ?new = "fst (raiseHighest (tokenCountsRef s) countKeys (highestTokenCounts s, False))"
  have st: "st_highestTokenCounts (endRun s) = ?new" "ls_highestTokenCounts (endRun s) = Some ?new"
    using True by (simp_all add: endRun_best)
  have new: "countOf ?new k = max (countOf (highestTokenCounts s) k) (countOf (tokenCountsRef s) k)" for k
    by (simp add: raised_count max_def)
  from assms have old: "countOf (st_highestTokenCounts s) k \<le>
       max (countOf (highestTokenCounts s) k) (countOf (tokenCountsRef s) k)" for k
    by (simp add: bestInv_def)
  show ?thesis
    using st new old by (simp add: bestInv_def persistedBest_def)
next
  case False
  then have "st_highestTokenCounts (endRun s) = st_highestTokenCounts s"
    "ls_highestTokenCounts (endRun s) = ls_highestTokenCounts s"
    by (simp_all add: endRun_best)
  with assms show ?thesis
    by (simp add: bestInv_def persistedBest_def)
qed

lemma collectToken_bestInv:
  assumes "bestInv s"
  shows "bestInv (snd (collectToken t g s))"
proof -
  have "countOf (tokenCountsRef s) k \<le> countOf (tokenCountsRef (snd (collectToken t g s))) k" for k
    by (simp add: countOf_setCount)
  then have "max (countOf (highestTokenCounts s) k) (countOf (tokenCountsRef s) k) \<le>
     max (countOf (highestTokenCounts s) k) (countOf (tokenCountsRef (snd (collectToken t g s))) k)" for k
    by (meson max.mono order_refl)
  moreover from assms have "countOf (st_highestTokenCounts s) k \<le>
       max (countOf (highestTokenCounts s) k) (countOf (tokenCountsRef s) k)" for k
    by (simp add: bestInv_def)
  ultimately have "countOf (st_highestTokenCounts s) k \<le>
     max (countOf (highestTokenCounts s) k) (countOf (tokenCountsRef (snd (collectToken t g s))) k)" for k
    using order_trans by blast
  with assms show ?thesis
    unfolding bestInv_def persistedBest_def
    by (simp del: collectToken_counts)
qed

lemma gateCallback_bestInv:
  assumes "bestInv s"
  shows "bestInv (snd (snd (gateCallback t g s))) \<and>
         (\<forall>k. countOf (st_highestTokenCounts s) k \<le>
               countOf (st_highestTokenCounts (snd (snd (gateCallback t g s)))) k)"
proof -
  let ?g2 = "fst (advanceGate t g s)" and ?s1 = "snd (advanceGate t g s)"
  let ?ov = "overlapsLine (g\<lparr>gx := gx g - currentSpeed s\<rparr>)"
  have s1: "bestInv ?s1"
    using assms by simp
  consider (hit) "?ov" "collision s g"
    | (take) "?ov" "\<not> collision s g" "tokenInReach s g"
    | (plain) "\<not> (?ov \<and> (collision s g \<or> tokenInReach s g))"
    by blast
  then show ?thesis
  proof cases
    case hit
    then have "snd (snd (gateCallback t g s)) = endRun ?s1"
      by (simp add: gateCallback_collide)
    with endRun_bestInv [OF s1] show ?thesis by simp
  next
    case take
    let ?c = "collectToken t ?g2 ?s1"
    let ?m = "snd (markPassed (fst ?c) (snd ?c))"
    have "bestInv (snd ?c)" using s1 by (rule collectToken_bestInv)
    then have "bestInv ?m" by simp
    with gateCallback_collect [OF take, of t] show ?thesis by simp
  next
    case plain
    let ?m = "snd (markPassed ?g2 ?s1)"
    have "bestInv ?m" using s1 by simp
    with gateCallback_plain [OF plain, of t] show ?thesis by simp
  qed
qed

lemma filterGates_bestInv:
  "bestInv s \<Longrightarrow>
     bestInv (snd (filterGates t gs s)) \<and>
     (\<forall>k. countOf (st_highestTokenCounts s) k \<le>
           countOf (st_highestTokenCounts (snd (filterGates t gs s))) k)"
proof (induction gs arbitrary: s)
  case Nil
  then show ?case by simp
next
  case (Cons a gs)
  let ?s' = "snd (snd (gateCallback t a s))"
  from gateCallback_bestInv [OF Cons.prems, of t a]
  have a: "bestInv ?s'"
    "\<And>k. countOf (st_highestTokenCounts s) k \<le> countOf (st_highestTokenCounts ?s') k"
    by simp_all
  from Cons.IH [OF a(1)]
  have b: "bestInv (snd (filterGates t gs ?s'))"
    "\<And>k. countOf (st_highestTokenCounts ?s') k \<le>
          countOf (st_highestTokenCounts (snd (filterGates t gs ?s'))) k"
    by simp_all
  from a(2) b(2) have "countOf (st_highestTokenCounts s) k \<le>
          countOf (st_highestTokenCounts (snd (filterGates t gs ?s'))) k" for k
    using order_trans by blast
  with b(1) show ?case by (simp add: split_beta)
qed

lemma gameLoop_bestInv:
  assumes "bestInv s"
  shows "bestInv (gameLoop t r s) \<and>
         (\<forall>k. countOf (st_highestTokenCounts s) k \<le>
               countOf (st_highestTokenCounts (gameLoop t r s)) k)"
proof -
  let ?u = "spawnIfDue r (integrate (velocityStep t r s))"
  have u: "bestInv ?u" "st_highestTokenCounts ?u = st_highestTokenCounts s"
    using assms by (simp_all add: bestInv_cong [of ?u s])
  let ?w = "snd (filterGates t (gates ?u) ?u)"
  from filterGates_bestInv [OF u(1), of t "gates ?u"] u(2)
  have w: "bestInv ?w"
    "\<And>k. countOf (st_highestTokenCounts s) k \<le> countOf (st_highestTokenCounts ?w) k"
    by simp_all
  let ?v = "updateGates t ?u"
  have v: "bestInv ?v" "st_highestTokenCounts ?v = st_highestTokenCounts ?w"
    using w(1) by (simp_all add: updateGates_def split_beta bestInv_cong [of "?w\<lparr>gates := fst (filterGates t (gates ?u) ?u)\<rparr>" ?w])
  show ?thesis
  proof (cases "outOfBounds ?v")
    case True
    then have "bestInv (gameLoop t r s) = bestInv (endRun ?v)"
      "st_highestTokenCounts (gameLoop t r s) = st_highestTokenCounts (endRun ?v)"
      by (simp_all add: gameLoop_def boundsCheck_def bestInv_cong [of "(endRun ?v)\<lparr>frameRequested := False\<rparr>" "endRun ?v"])
    with endRun_bestInv [OF v(1)] v(2) w(2) show ?thesis
      using order_trans by (metis (no_types, lifting))
  next
    case False
    then have "bestInv (gameLoop t r s) = bestInv ?v"
      "st_highestTokenCounts (gameLoop t r s) = st_highestTokenCounts ?v"
      by (simp_all add: gameLoop_def boundsCheck_def bestInv_cong [of "?v\<lparr>frameRequested := True\<rparr>" ?v])
    with v w(2) show ?thesis by simp
  qed
qed

lemma step_bestInv:
  assumes "bestInv s"
  shows "bestInv (step e s) \<and>
         (\<forall>k. countOf (st_highestTokenCounts s) k \<le> countOf (st_highestTokenCounts (step e s)) k)"
proof (cases e)
  case (StartGame r)
  with assms show ?thesis
    by (simp add: bestInv_def persistedBest_def startLoop_def handleStartGame_def
        initializeGate_def Let_def)
next
  case Impulse
  with assms show ?thesis
    by (simp add: bestInv_def persistedBest_def handleInput_def)
next
  case (Frame t r)
  with assms gameLoop_bestInv [OF assms, of t r] show ?thesis by simp
qed

lemma reachable_bestInv: "reachable s \<Longrightarrow> bestInv s"
proof (induction rule: reachable.induct)
  case (reachable_mount hs hc)
  show ?case
    by (simp add: bestInv_def persistedBest_def mount_def split: option.splits)
next
  case (reachable_step s e)
  then show ?case by (simp add: step_bestInv)
qed

text \<open>The frame that takes the player out of the playfield ends the run.\<close>

lemma cruise_exit:
  assumes tr: "tracks s c" and ex: "cruiseExit c = Some h'"
  shows "st_gameState (gameLoop t noRolls s) = GAME_OVER"
    and "ls_highestTokenCounts (gameLoop t noRolls s) =
           (if \<exists>k\<in>set countKeys. countOf (zeroCounts\<lparr>hbar := nat h'\<rparr>) k > countOf (highestTokenCounts s) k
            then Some (fst (raiseHighest (zeroCounts\<lparr>hbar := nat h'\<rparr>) countKeys (highestTokenCounts s, False)))
            else ls_highestTokenCounts s)"
proof -
  obtain y v gs lx n h where c: "c = (y, v, gs, lx, n, h)" by (cases c)
  let ?v = "v + 220" and ?y = "y + (v + 220)"
  from ex c have b: "?y < 0 \<or> 600000 < ?y" "n < 30"
    by (auto simp add: cruiseOut_def split: if_splits)
  with ex c obtain gs' lx' n' where
    g: "cruisePass ?y gs lx n h = Some (gs', lx', n', h')"
    by (cases "cruisePass ?y gs lx n h") (auto simp add: cruiseOut_def)
  let ?w = "updateGates t (spawnIfDue noRolls (integrate (velocityStep t noRolls s)))"
  note w = cruise_pass [OF tr [unfolded c] b(2) g, of t]
  from w(2) have ly: "lineY ?w = milli ?y"
    unfolding midFrame_def by blast
  have out: "outOfBounds ?w"
    unfolding outOfBounds_def ly using b(1) by (simp add: milli_game)
  then have gl: "gameLoop t noRolls s = (endRun ?w)\<lparr>frameRequested := False\<rparr>"
    by (simp add: gameLoop_def boundsCheck_def)
  show "st_gameState (gameLoop t noRolls s) = GAME_OVER"
    by (simp add: gl)
  from w(2) have cnt: "tokenCountsRef ?w = zeroCounts\<lparr>hbar := nat h'\<rparr>"
    unfolding midFrame_def by blast
  have hi: "highestTokenCounts ?w = highestTokenCounts s"
    by simp
  show "ls_highestTokenCounts (gameLoop t noRolls s) =
           (if \<exists>k\<in>set countKeys. countOf (zeroCounts\<lparr>hbar := nat h'\<rparr>) k > countOf (highestTokenCounts s) k
            then Some (fst (raiseHighest (zeroCounts\<lparr>hbar := nat h'\<rparr>) countKeys (highestTokenCounts s, False)))
            else ls_highestTokenCounts s)"
    unfolding gl using endRun_best(2) [of ?w] by (simp add: cnt hi w(3))
qed

text \<open>The two runs of the returning visitor, followed on the machine.\<close>

lemma goldRun_reachable: "reachable goldRun"
  unfolding goldRun_def by (intro reachable.intros)

lemma idleRun_reachable: "reachable idleRun"
  unfolding idleRun_def by (intro reachable.intros)

lemma goldRun_fields:
  "gates goldRun = [\<lparr>gx = 800, topHeight = 200, hasPassed = False, tokenType = HBAR,
                     baseGateGap = 150, isFlashing = False\<rparr>]"
  "lineY goldRun = 300" "lineVelocity goldRun = 0" "gatesPassed goldRun = 0"
  "st_gameState goldRun = PLAYING" "activeEffects goldRun = []"
  "highestTokenCounts goldRun = storedBest" "tokenCountsRef goldRun = zeroCounts"
  "lastGateX goldRun = 800" "chaosMode goldRun = False"
  by (simp_all add: goldRun_def goldRolls_def startLoop_def handleStartGame_def mount_def
        noRolls_def frame_defs game_constants)

lemma idleRun_fields:
  "gates idleRun = [\<lparr>gx = 800, topHeight = 200, hasPassed = False, tokenType = NONE,
                     baseGateGap = 150, isFlashing = False\<rparr>]"
  "lineY idleRun = 300" "lineVelocity idleRun = 0" "gatesPassed idleRun = 0"
  "st_gameState idleRun = PLAYING" "activeEffects idleRun = []"
  "highestTokenCounts idleRun = storedBest" "tokenCountsRef idleRun = zeroCounts"
  "lastGateX idleRun = 800" "chaosMode idleRun = False"
  by (simp_all add: idleRun_def startLoop_def handleStartGame_def mount_def
        noRolls_def frame_defs game_constants)

lemma goldRun_tracks: "tracks goldRun goldStart"
  using reachable_schedule [OF goldRun_reachable]
  by (simp add: goldStart_def goldRun_fields cruiseGate_def milli_def zeroCounts_def)

lemma idleRun_tracks: "tracks idleRun cruiseStart"
  using reachable_schedule [OF idleRun_reachable]
  by (simp add: cruiseStart_def idleRun_fields cruiseGate_def milli_def zeroCounts_def)

lemma frames_highest: "highestTokenCounts (run (frames k t) s) = highestTokenCounts s"
  by (induction k arbitrary: s t) (simp_all add: gameLoop_def)

lemma hops_highest: "highestTokenCounts (run (hops k t) s) = highestTokenCounts s"
  by (induction k arbitrary: s t) (simp_all add: run_append frames_highest handleInput_def)

lemma cruiseFrames_1: "cruiseFrames 1 = cruiseFrame"
  by simp

lemma cruiseFrames_82: "cruiseFrames 82 = cruise82"
proof -
  have "cruiseFrames 82 = cruiseFrames (49 + (7 + (7 + (7 + (7 + (1 + (1 + (1 + (1 + 1)))))))))"
    by (rule arg_cong [where f = cruiseFrames]) simp
  also have "\<dots> = cruise82"
    unfolding cruiseFrames_add cruiseFrames_49 cruiseFrames_7 cruiseFrames_1 cruise82_def ..
  finally show ?thesis .
qed

lemma cruiseFrames_51: "cruiseFrames 51 = cruise51"
proof -
  have "cruiseFrames 51 = cruiseFrames (49 + (1 + 1))"
    by (rule arg_cong [where f = cruiseFrames]) simp
  also have "\<dots> = cruise51"
    unfolding cruiseFrames_add cruiseFrames_49 cruiseFrames_1 cruise51_def ..
  finally show ?thesis .
qed

lemma cruiseHops_5: "cruiseHops 5 = cruiseSeq cruiseHop4 cruiseHop"
proof -
  have "cruiseHops 5 = cruiseHops (4 + 1)"
    by (rule arg_cong [where f = cruiseHops]) simp
  also have "\<dots> = cruiseSeq cruiseHop4 cruiseHop"
    unfolding cruiseHops_add cruiseHops_4 cruiseHops_1 ..
  finally show ?thesis .
qed

lemma gold_machine:
  "cruiseGold goldStart =
     Some (597660, 12540,
           [(- 27310, True, False), (175090, False, False), (377490, False, False),
            (579890, False, False), (782290, False, False)],
           782290, 1, 1)"
  by (simp only: cruise_eval)

lemma gold_exit:
  "cruiseExit (597660, 12540,
           [(- 27310, True, False), (175090, False, False), (377490, False, False),
            (579890, False, False), (782290, False, False)],
           782290, 1, 1) = Some 1"
  by (simp only: cruise_eval)

lemma idle_machine:
  "cruise51 cruiseStart = Some (591720, 11220, [(670970, False, False)], 670970, 0, 0)"
  by (simp only: cruise_eval)

lemma idle_exit:
  "cruiseExit (591720, 11220, [(670970, False, False)], 670970, 0, 0) = Some 0"
  by (simp only: cruise_eval)

lemma goldPlay_tracks:
  "tracks (run goldPlay goldRun)
     (597660, 12540,
      [(- 27310, True, False), (175090, False, False), (377490, False, False),
       (579890, False, False), (782290, False, False)],
      782290, 1, 1)"
proof -
  let ?c = "(597660, 12540,
      [(- 27310, True, False), (175090, False, False), (377490, False, False),
       (579890, False, False), (782290, False, False)],
      782290, 1, 1) :: Cruise"
  have "cruiseSeq (cruiseHops 5) (cruiseSeq cruiseImpulse (cruiseFrames 82)) = cruiseGold"
    by (simp only: cruiseHops_5 cruiseFrames_82 cruiseSeq_assoc cruiseGold_def)
  then have "cruiseSeq (cruiseHops 5) (cruiseSeq cruiseImpulse (cruiseFrames 82)) goldStart = Some ?c"
    by (simp only: gold_machine)
  then obtain c1 c2 where c: "cruiseHops 5 goldStart = Some c1" "cruiseImpulse c1 = Some c2"
    "cruiseFrames 82 c2 = Some ?c"
    unfolding cruiseSeq_def by (auto split: Option.bind_splits)
  have 1: "tracks (run (hops 5 0) goldRun) c1"
    using goldRun_tracks c(1) by (rule tracks_hops)
  then have "tracks (handleInput (run (hops 5 0) goldRun)) c2"
    using c(2) by (rule cruise_impulse)
  then have "tracks (run (frames 82 3920) (handleInput (run (hops 5 0) goldRun))) ?c"
    using c(3) by (rule tracks_frames)
  with tracks_playing [OF 1] show ?thesis
    by (simp add: goldPlay_def run_append)
qed

lemma idlePlay_tracks:
  "tracks (run idlePlay idleRun) (591720, 11220, [(670970, False, False)], 670970, 0, 0)"
proof -
  have "cruiseFrames 51 cruiseStart = Some (591720, 11220, [(670970, False, False)], 670970, 0, 0)"
    by (simp only: cruiseFrames_51 idle_machine)
  with idleRun_tracks show ?thesis
    unfolding idlePlay_def by (rule tracks_frames)
qed

text \<open>
  Claim C8. In every state the component can reach, the stored best counts are the best counts
  of the React state, and while a run is on they are the value the loop compares with. No
  event, a frame that ends the run included, lowers the stored best count of any kind, and
  neither does the end-of-run block. That block computes, for each kind, the run's count
  where it is strictly higher than the recorded one and the recorded one otherwise, and
  writes the result to storage only when some kind is strictly higher; otherwise storage is
  left as it is.
\<close>

theorem best_counts_never_decrease:
  assumes "reachable s"
  shows "persistedBest s = st_highestTokenCounts s \<and>
         (st_gameState s = PLAYING \<longrightarrow> highestTokenCounts s = persistedBest s) \<and>
         (\<forall>k. countOf (persistedBest s) k \<le> countOf (persistedBest (step e s)) k) \<and>
         (\<forall>k. countOf (persistedBest s) k \<le> countOf (persistedBest (endRun s)) k) \<and>
         (\<forall>k. countOf (fst (raiseHighest (tokenCountsRef s) countKeys (highestTokenCounts s, False))) k =
               (if countOf (tokenCountsRef s) k > countOf (highestTokenCounts s) k
                then countOf (tokenCountsRef s) k else countOf (highestTokenCounts s) k)) \<and>
         ls_highestTokenCounts (endRun s) =
           (if \<exists>k\<in>set countKeys. countOf (tokenCountsRef s) k > countOf (highestTokenCounts s) k
            then Some (fst (raiseHighest (tokenCountsRef s) countKeys (highestTokenCounts s, False)))
            else ls_highestTokenCounts s)"
proof -
  have inv: "bestInv s" using assms by (rule reachable_bestInv)
  from step_bestInv [OF inv, of e] endRun_bestInv [OF inv] inv
  show ?thesis
    by (simp add: bestInv_def raised_count endRun_best(2))
qed

text \<open>
  The theorem at the runs of a returning visitor whose stored best counts are one BTC and
  three ETH. In the first run the player has collected one HBAR token when the frame at
  5232 ms takes the player out of the playfield: that frame ends the run and writes the
  record with HBAR raised to one, BTC and ETH as they were. In the second run nothing is
  collected and the frame at 816 ms ends the run: the record stays as it was. And at the
  fresh run of a first visit, where nothing is stored.
\<close>

theorem best_counts_never_decrease_witness:
  "reachable (run goldPlay goldRun) \<and>
   st_gameState (run goldPlay goldRun) = PLAYING \<and>
   tokenCountsRef (run goldPlay goldRun) = zeroCounts\<lparr>hbar := 1\<rparr> \<and>
   highestTokenCounts (run goldPlay goldRun) = zeroCounts\<lparr>btc := 1, eth := 3\<rparr> \<and>
   persistedBest (run goldPlay goldRun) = zeroCounts\<lparr>btc := 1, eth := 3\<rparr> \<and>
   countOf (persistedBest (run goldPlay goldRun)) HBAR \<le>
     countOf (persistedBest (step (Frame 5232 noRolls) (run goldPlay goldRun))) HBAR \<and>
   st_gameState (step (Frame 5232 noRolls) (run goldPlay goldRun)) = GAME_OVER \<and>
   persistedBest (step (Frame 5232 noRolls) (run goldPlay goldRun)) =
     zeroCounts\<lparr>btc := 1, eth := 3, hbar := 1\<rparr> \<and>
   ls_highestTokenCounts (endRun (run goldPlay goldRun)) =
     Some (zeroCounts\<lparr>btc := 1, eth := 3, hbar := 1\<rparr>) \<and>
   reachable (run idlePlay idleRun) \<and>
   st_gameState (run idlePlay idleRun) = PLAYING \<and>
   tokenCountsRef (run idlePlay idleRun) = zeroCounts \<and>
   persistedBest (run idlePlay idleRun) = zeroCounts\<lparr>btc := 1, eth := 3\<rparr> \<and>
   st_gameState (step (Frame 816 noRolls) (run idlePlay idleRun)) = GAME_OVER \<and>
   persistedBest (step (Frame 816 noRolls) (run idlePlay idleRun)) =
     zeroCounts\<lparr>btc := 1, eth := 3\<rparr> \<and>
   ls_highestTokenCounts (endRun (run idlePlay idleRun)) =
     ls_highestTokenCounts (run idlePlay idleRun) \<and>
   reachable freshRun \<and> persistedBest freshRun = zeroCounts \<and>
   ls_highestTokenCounts (endRun freshRun) = None"
proof -
  let ?S = "run goldPlay goldRun" and ?T = "run idlePlay idleRun"
  have rS: "reachable ?S"
    using goldRun_reachable by (rule reachable_run)
  have fS: "st_gameState ?S = PLAYING" "tokenCountsRef ?S = zeroCounts\<lparr>hbar := 1\<rparr>"
    using goldPlay_tracks by simp_all
  have hS: "highestTokenCounts ?S = storedBest"
    by (simp add: goldPlay_def run_append frames_highest hops_highest handleInput_def
        goldRun_fields)
  note instS = best_counts_never_decrease [OF rS, of "Frame 5232 noRolls"]
  from instS have "st_gameState ?S = PLAYING \<longrightarrow> highestTokenCounts ?S = persistedBest ?S"
    by blast
  with fS(1) hS have pS: "persistedBest ?S = storedBest"
    by simp
  from instS have leS: "countOf (persistedBest ?S) HBAR \<le>
      countOf (persistedBest (step (Frame 5232 noRolls) ?S)) HBAR"
    by blast
  from instS have "ls_highestTokenCounts (endRun ?S) =
      (if \<exists>k\<in>set countKeys. countOf (tokenCountsRef ?S) k > countOf (highestTokenCounts ?S) k
       then Some (fst (raiseHighest (tokenCountsRef ?S) countKeys (highestTokenCounts ?S, False)))
       else ls_highestTokenCounts ?S)"
    by blast
  then have wS: "ls_highestTokenCounts (endRun ?S) = Some (zeroCounts\<lparr>btc := 1, eth := 3, hbar := 1\<rparr>)"
    by (simp add: fS hS storedBest_def countKeys_def zeroCounts_def)
  note exS = cruise_exit [OF goldPlay_tracks gold_exit, of 5232]
  have eS: "st_gameState (step (Frame 5232 noRolls) ?S) = GAME_OVER"
    "persistedBest (step (Frame 5232 noRolls) ?S) = zeroCounts\<lparr>btc := 1, eth := 3, hbar := 1\<rparr>"
    using exS by (simp_all add: fS(1) hS persistedBest_def storedBest_def countKeys_def zeroCounts_def)
  have rT: "reachable ?T"
    using idleRun_reachable by (rule reachable_run)
  have fT: "st_gameState ?T = PLAYING" "tokenCountsRef ?T = zeroCounts"
    using idlePlay_tracks by (simp_all add: zeroCounts_def)
  have hT: "highestTokenCounts ?T = storedBest"
    by (simp add: idlePlay_def frames_highest idleRun_fields)
  note instT = best_counts_never_decrease [OF rT, of "Frame 816 noRolls"]
  from instT have "st_gameState ?T = PLAYING \<longrightarrow> highestTokenCounts ?T = persistedBest ?T"
    by blast
  with fT(1) hT have pT: "persistedBest ?T = storedBest"
    by simp
  from instT have "ls_highestTokenCounts (endRun ?T) =
      (if \<exists>k\<in>set countKeys. countOf (tokenCountsRef ?T) k > countOf (highestTokenCounts ?T) k
       then Some (fst (raiseHighest (tokenCountsRef ?T) countKeys (highestTokenCounts ?T, False)))
       else ls_highestTokenCounts ?T)"
    by blast
  then have wT: "ls_highestTokenCounts (endRun ?T) = ls_highestTokenCounts ?T"
    by (simp add: fT hT storedBest_def countKeys_def zeroCounts_def)
  note exT = cruise_exit [OF idlePlay_tracks idle_exit, of 816]
  have "ls_highestTokenCounts (step (Frame 816 noRolls) ?T) = ls_highestTokenCounts ?T"
    using exT(2) by (simp add: fT(1) hT storedBest_def countKeys_def zeroCounts_def)
  then have "persistedBest (step (Frame 816 noRolls) ?T) = persistedBest ?T"
    unfolding persistedBest_def by (rule arg_cong)
  with pT exT(1) have eT: "st_gameState (step (Frame 816 noRolls) ?T) = GAME_OVER"
    "persistedBest (step (Frame 816 noRolls) ?T) = storedBest"
    by (simp_all add: fT(1))
  note instF = best_counts_never_decrease [OF freshRun_reachable, of "Frame 0 noRolls"]
  from instF have "persistedBest freshRun = st_highestTokenCounts freshRun"
    by blast
  then have pF: "persistedBest freshRun = zeroCounts"
    by (simp add: freshRun_fields)
  from instF have "ls_highestTokenCounts (endRun freshRun) =
      (if \<exists>k\<in>set countKeys. countOf (tokenCountsRef freshRun) k > countOf (highestTokenCounts freshRun) k
       then Some (fst (raiseHighest (tokenCountsRef freshRun) countKeys (highestTokenCounts freshRun, False)))
       else ls_highestTokenCounts freshRun)"
    by blast
  then have wF: "ls_highestTokenCounts (endRun freshRun) = None"
    by (simp add: freshRun_fields zeroCounts_def countKeys_def)
  have sb: "storedBest = zeroCounts\<lparr>btc := 1, eth := 3\<rparr>"
    by (simp add: storedBest_def)
  from rS fS hS pS leS eS wS rT fT pT eT wT freshRun_reachable pF wF show ?thesis
    unfolding sb by (intro conjI)
qed

section \<open>Token kinds of successive spawns\<close>

lemma possibleTokens_set:
  "set (possibleTokens l) = set countKeys - {l}" "distinct (possibleTokens l)"
  by (auto simp add: possibleTokens_def countKeys_def)

lemma possibleTokens_length: "length (possibleTokens l) = (if l = NONE then 6 else 5)"
  by (cases l) (simp_all add: possibleTokens_def)

lemma roll_index:
  assumes "unitRoll r" and "0 < n"
  shows "nat \<lfloor>r * real n\<rfloor> < n"
proof -
  from assms have "r * real n < real n" "0 \<le> r * real n"
    by (simp_all add: unitRoll_def)
  then have "\<lfloor>r * real n\<rfloor> < int n" "0 \<le> \<lfloor>r * real n\<rfloor>"
    by (simp_all add: floor_less_iff)
  then show ?thesis by linarith
qed

lemma roll_index_eq:
  assumes "unitRoll r"
  shows "nat \<lfloor>r * real n\<rfloor> = j \<longleftrightarrow> real j \<le> r * real n \<and> r * real n < real j + 1"
proof -
  from assms have nn: "0 \<le> r * real n" by (simp add: unitRoll_def)
  then have "0 \<le> \<lfloor>r * real n\<rfloor>" by simp
  then have "nat \<lfloor>r * real n\<rfloor> = j \<longleftrightarrow> \<lfloor>r * real n\<rfloor> = int j" by linarith
  also have "\<dots> \<longleftrightarrow> real j \<le> r * real n \<and> r * real n < real j + 1"
    by (simp add: floor_eq_iff)
  finally show ?thesis .
qed

lemma getRandomTokenType_pool:
  assumes "unitRoll iRoll"
  shows "getRandomTokenType tRoll iRoll l = NONE \<or>
         getRandomTokenType tRoll iRoll l \<in> set (possibleTokens l)"
proof (cases "tRoll < 25 / 100")
  case True
  have "0 < length (possibleTokens l)" by (simp add: possibleTokens_length)
  from roll_index [OF assms this] True show ?thesis
    by (simp add: getRandomTokenType_def)
next
  case False
  then show ?thesis by (simp add: getRandomTokenType_def)
qed

lemma getRandomTokenType_fresh:
  assumes "unitRoll iRoll" and "getRandomTokenType tRoll iRoll l \<noteq> NONE"
  shows "getRandomTokenType tRoll iRoll l \<noteq> l"
  using getRandomTokenType_pool [OF assms(1), of tRoll l] assms(2)
  by (auto simp add: possibleTokens_set)

lemma getRandomTokenType_uniform:
  assumes "tRoll < 25 / 100" and "unitRoll iRoll" and "j < length (possibleTokens l)"
  shows "getRandomTokenType tRoll iRoll l = possibleTokens l ! j \<longleftrightarrow>
         real j \<le> iRoll * real (length (possibleTokens l)) \<and>
         iRoll * real (length (possibleTokens l)) < real j + 1"
proof -
  let ?n = "length (possibleTokens l)"
  have pos: "0 < ?n" by (simp add: possibleTokens_length)
  have i: "nat \<lfloor>iRoll * real ?n\<rfloor> < ?n" using assms(2) pos by (rule roll_index)
  have "getRandomTokenType tRoll iRoll l = possibleTokens l ! nat \<lfloor>iRoll * real ?n\<rfloor>"
    using assms(1) pos by (simp add: getRandomTokenType_def)
  then have "getRandomTokenType tRoll iRoll l = possibleTokens l ! j \<longleftrightarrow>
             nat \<lfloor>iRoll * real ?n\<rfloor> = j"
    using i assms(3) possibleTokens_set(2) [of l] by (simp add: nth_eq_iff_index_eq)
  with roll_index_eq [OF assms(2)] show ?thesis by simp
qed

lemma spawnKinds_length [simp]: "length (spawnKinds rs l) = length rs"
  by (induction rs arbitrary: l) (auto simp add: Let_def)

lemma spawnKinds_chain:
  "i < length rs \<Longrightarrow>
     spawnKinds rs l ! i =
       getRandomTokenType (fst (rs ! i)) (snd (rs ! i)) ((l # spawnKinds rs l) ! i)"
proof (induction rs arbitrary: l i)
  case Nil
  then show ?case by simp
next
  case (Cons p rs)
  obtain tR iR where p: "p = (tR, iR)" by (cases p)
  show ?case
  proof (cases i)
    case 0
    with p show ?thesis by (simp add: Let_def)
  next
    case (Suc j)
    with Cons.prems have "j < length rs" by simp
    from Cons.IH [OF this, of "getRandomTokenType tR iR l"] Suc p show ?thesis
      by (simp add: Let_def)
  qed
qed

lemma initializeGate_token:
  "lastTokenType (initializeGate r s) =
     getRandomTokenType (tokenRoll r) (indexRoll r) (lastTokenType s)"
  "gates (initializeGate r s) = gates s @ [last (gates (initializeGate r s))]"
  "tokenType (last (gates (initializeGate r s))) =
     getRandomTokenType (tokenRoll r) (indexRoll r) (lastTokenType s)"
  by (simp_all add: initializeGate_def Let_def)

lemma spawns_are_chain:
  "map tokenType (gates (fold initializeGate rs s)) =
     map tokenType (gates s) @
     spawnKinds (map (\<lambda>r. (tokenRoll r, indexRoll r)) rs) (lastTokenType s)"
proof (induction rs arbitrary: s)
  case Nil
  show ?case by simp
next
  case (Cons r rs)
  have "map tokenType (gates (initializeGate r s)) =
        map tokenType (gates s) @ [getRandomTokenType (tokenRoll r) (indexRoll r) (lastTokenType s)]"
    by (simp add: initializeGate_def Let_def)
  with Cons.IH [of "initializeGate r s"] show ?case
    by (simp add: initializeGate_token(1) Let_def)
qed

lemma gameLoop_lastTokenType:
  "lastTokenType (gameLoop t r s) =
     (if lastGateX s \<le> GAME_WIDTH - GATE_DISTANCE
      then getRandomTokenType (tokenRoll r) (indexRoll r) (lastTokenType s)
      else lastTokenType s)"
  by (simp add: gameLoop_def spawnIfDue_def initializeGate_token(1))

text \<open>
  Claim C4. Along any sequence of spawns whose index draws are in the unit interval, each
  spawn's kind is \<open>getRandomTokenType\<close> of the kind of the spawn before it, and a kind
  other than none differs from the kind of the spawn before it and comes from the pool of
  all six kinds without that one. Within the pool the draw is uniform: the kind at each
  position is chosen exactly on an interval of index draws of width one over the pool's
  length. A token roll of 0.25 or more gives no token; the pool after a spawn without token
  holds all six kinds, so nothing is excluded after it. The kinds the gates carry after a
  series of \<open>initializeGate\<close> are this chain, and a frame changes \<open>lastTokenType\<close> only
  by its own spawn.
\<close>

theorem no_immediate_repeat:
  assumes "\<forall>p\<in>set rs. unitRoll (snd p)"
  shows "(\<forall>i<length rs.
            spawnKinds rs l ! i =
              getRandomTokenType (fst (rs ! i)) (snd (rs ! i)) ((l # spawnKinds rs l) ! i) \<and>
            (spawnKinds rs l ! i \<noteq> NONE \<longrightarrow>
               spawnKinds rs l ! i \<noteq> (l # spawnKinds rs l) ! i \<and>
               spawnKinds rs l ! i \<in> set (possibleTokens ((l # spawnKinds rs l) ! i)))) \<and>
         set (possibleTokens l) = {BTC, ETH, TAO, BCH, HBAR, SOL} - {l} \<and>
         distinct (possibleTokens l) \<and>
         (\<forall>tRoll iRoll j. tRoll < 25 / 100 \<and> unitRoll iRoll \<and> j < length (possibleTokens l) \<longrightarrow>
            (getRandomTokenType tRoll iRoll l = possibleTokens l ! j \<longleftrightarrow>
               real j \<le> iRoll * real (length (possibleTokens l)) \<and>
               iRoll * real (length (possibleTokens l)) < real j + 1)) \<and>
         (\<forall>tRoll iRoll. \<not> tRoll < 25 / 100 \<longrightarrow> getRandomTokenType tRoll iRoll l = NONE) \<and>
         map tokenType (gates (fold initializeGate rolls s)) =
           map tokenType (gates s) @
           spawnKinds (map (\<lambda>r. (tokenRoll r, indexRoll r)) rolls) (lastTokenType s) \<and>
         lastTokenType (gameLoop t r s) =
           (if lastGateX s \<le> GAME_WIDTH - GATE_DISTANCE
            then getRandomTokenType (tokenRoll r) (indexRoll r) (lastTokenType s)
            else lastTokenType s)"
proof -
  have chain: "\<forall>i<length rs.
            spawnKinds rs l ! i =
              getRandomTokenType (fst (rs ! i)) (snd (rs ! i)) ((l # spawnKinds rs l) ! i) \<and>
            (spawnKinds rs l ! i \<noteq> NONE \<longrightarrow>
               spawnKinds rs l ! i \<noteq> (l # spawnKinds rs l) ! i \<and>
               spawnKinds rs l ! i \<in> set (possibleTokens ((l # spawnKinds rs l) ! i)))"
  proof (intro allI impI)
    fix i assume i: "i < length rs"
    let ?prev = "(l # spawnKinds rs l) ! i"
    have eq: "spawnKinds rs l ! i = getRandomTokenType (fst (rs ! i)) (snd (rs ! i)) ?prev"
      using i by (rule spawnKinds_chain)
    from i assms have u: "unitRoll (snd (rs ! i))" by simp
    from getRandomTokenType_fresh [OF u, of "fst (rs ! i)" ?prev]
         getRandomTokenType_pool [OF u, of "fst (rs ! i)" ?prev] eq
    show "spawnKinds rs l ! i =
              getRandomTokenType (fst (rs ! i)) (snd (rs ! i)) ?prev \<and>
            (spawnKinds rs l ! i \<noteq> NONE \<longrightarrow>
               spawnKinds rs l ! i \<noteq> ?prev \<and>
               spawnKinds rs l ! i \<in> set (possibleTokens ?prev))"
      by auto
  qed
  have pool: "set (possibleTokens l) = {BTC, ETH, TAO, BCH, HBAR, SOL} - {l}"
    by (simp add: possibleTokens_set countKeys_def)
  have none: "\<forall>tRoll iRoll. \<not> tRoll < 25 / 100 \<longrightarrow> getRandomTokenType tRoll iRoll l = NONE"
    by (simp add: getRandomTokenType_def)
  from chain pool none possibleTokens_set(2) [of l] getRandomTokenType_uniform [of _ _ _ l]
    spawns_are_chain [of rolls s] gameLoop_lastTokenType [of t r s]
  show ?thesis by (simp only: simp_thms) blast
qed

lemma spawnRolls_kinds: "spawnKinds spawnRolls NONE = [BTC, NONE, BTC, ETH]"
  by (simp add: spawnRolls_def getRandomTokenType_def possibleTokens_def Let_def)

text \<open>
  The theorem at four spawns: BTC, no token, BTC again (the exclusion is not kept across the
  spawn without token), then ETH where the same draws after no token gave BTC.
\<close>

theorem no_immediate_repeat_witness:
  "spawnKinds spawnRolls NONE = [BTC, NONE, BTC, ETH] \<and>
   list_all (\<lambda>p. unitRoll (snd p)) spawnRolls \<and>
   spawnKinds spawnRolls NONE ! 3 \<noteq> spawnKinds spawnRolls NONE ! 2 \<and>
   spawnKinds spawnRolls NONE ! 3 \<in> set (possibleTokens BTC) \<and>
   getRandomTokenType (1 / 10) (1 / 2) NONE = BCH \<and>
   getRandomTokenType (1 / 2) (1 / 2) NONE = NONE"
proof -
  have u: "\<forall>p\<in>set spawnRolls. unitRoll (snd p)"
    by (simp add: spawnRolls_def unitRoll_def)
  note inst = no_immediate_repeat [OF u, of NONE "[]" freshRun 0 noRolls]
  from inst have "\<forall>i<length spawnRolls.
      spawnKinds spawnRolls NONE ! i \<noteq> NONE \<longrightarrow>
        spawnKinds spawnRolls NONE ! i \<noteq> (NONE # spawnKinds spawnRolls NONE) ! i \<and>
        spawnKinds spawnRolls NONE ! i \<in> set (possibleTokens ((NONE # spawnKinds spawnRolls NONE) ! i))"
    by blast
  then have "3 < length spawnRolls \<longrightarrow>
      spawnKinds spawnRolls NONE ! 3 \<noteq> NONE \<longrightarrow>
        spawnKinds spawnRolls NONE ! 3 \<noteq> (NONE # spawnKinds spawnRolls NONE) ! 3 \<and>
        spawnKinds spawnRolls NONE ! 3 \<in> set (possibleTokens ((NONE # spawnKinds spawnRolls NONE) ! 3))"
    by blast
  then have a: "spawnKinds spawnRolls NONE ! 3 \<noteq> spawnKinds spawnRolls NONE ! 2"
    "spawnKinds spawnRolls NONE ! 3 \<in> set (possibleTokens BTC)"
    by (simp_all add: spawnRolls_kinds) (simp_all add: spawnRolls_def)
  from inst have "\<forall>tRoll iRoll j. tRoll < 25 / 100 \<and> unitRoll iRoll \<and> j < length (possibleTokens NONE) \<longrightarrow>
            (getRandomTokenType tRoll iRoll NONE = possibleTokens NONE ! j \<longleftrightarrow>
               real j \<le> iRoll * real (length (possibleTokens NONE)) \<and>
               iRoll * real (length (possibleTokens NONE)) < real j + 1)"
    by blast
  then have "(1 / 10 :: real) < 25 / 100 \<and> unitRoll (1 / 2) \<and> 3 < length (possibleTokens NONE) \<longrightarrow>
            (getRandomTokenType (1 / 10) (1 / 2) NONE = possibleTokens NONE ! 3 \<longleftrightarrow>
               real 3 \<le> (1 / 2) * real (length (possibleTokens NONE)) \<and>
               (1 / 2) * real (length (possibleTokens NONE)) < real 3 + 1)"
    by blast
  then have b: "getRandomTokenType (1 / 10) (1 / 2) NONE = BCH"
    by (simp add: possibleTokens_def unitRoll_def)
  from inst have "\<forall>tRoll iRoll. \<not> tRoll < 25 / 100 \<longrightarrow> getRandomTokenType tRoll iRoll NONE = NONE"
    by blast
  then have "\<not> (1 / 2 :: real) < 25 / 100 \<longrightarrow> getRandomTokenType (1 / 2) (1 / 2) NONE = NONE"
    by blast
  then have c: "getRandomTokenType (1 / 2) (1 / 2) NONE = NONE" by simp
  from u have "list_all (\<lambda>p. unitRoll (snd p)) spawnRolls" by (simp add: list_all_iff)
  with a b c spawnRolls_kinds show ?thesis by simp
qed

section \<open>Effects: speed and the frictionless kind\<close>

lemma applyRules_effects [simp]: "activeEffects (applyRules es s) = activeEffects s"
proof (induction es arbitrary: s)
  case Nil
  show ?case by simp
next
  case (Cons e es)
  have "activeEffects (applyRule e s) = activeEffects s"
    by (cases "etype e") simp_all
  with Cons.IH [of "applyRule e s"] show ?case by (simp del: applyRule.simps)
qed

lemma applyRule_speed:
  "currentSpeed (applyRule e s) =
     (if speedAffecting (etype e) then baseSpeed s * speedFactor (etype e) else currentSpeed s)"
  by (cases "etype e") simp_all

lemma applyRules_speed:
  "currentSpeed (applyRules es s) =
     (case filter speedAffecting (map etype es) of
        [] \<Rightarrow> currentSpeed s
      | ks \<Rightarrow> baseSpeed s * speedFactor (last ks))"
proof (induction es arbitrary: s)
  case Nil
  show ?case by simp
next
  case (Cons e es)
  have "currentSpeed (applyRules (e # es) s) = currentSpeed (applyRules es (applyRule e s))"
    by simp
  also have "\<dots> = (case filter speedAffecting (map etype es) of
        [] \<Rightarrow> currentSpeed (applyRule e s)
      | ks \<Rightarrow> baseSpeed s * speedFactor (last ks))"
    by (simp add: Cons.IH del: applyRule.simps split: list.split)
  also have "\<dots> = (case filter speedAffecting (map etype (e # es)) of
        [] \<Rightarrow> currentSpeed s
      | ks \<Rightarrow> baseSpeed s * speedFactor (last ks))"
    by (simp add: applyRule_speed del: applyRule.simps split: list.splits)
  finally show ?case .
qed

text \<open>
  Claim C3, as amended. After \<open>processEffects\<close> the current speed is the one set by the last
  effect in the active list, that is the most recently collected one, among the active
  effects whose kind sets the speed (the base speed if there is none): the loop walks the list
  in its order and every speed rule overwrites the speed. The filter keeps the order of the
  list and a collected effect is appended at its end.
\<close>

theorem speed_set_by_last_in_list:
  "currentSpeed (processEffects t s) = speedByListOrder (baseSpeed s) (liveKinds t s) \<and>
   liveKinds t (processEffects t s) = liveKinds t s \<and>
   activeEffects (pushEffect k t' s) = activeEffects s @ [\<lparr>etype = k, endTime = t'\<rparr>]"
  by (simp add: processEffects_def Let_def applyRules_speed speedByListOrder_def liveKinds_def
      pushEffect_def split: list.split)

text \<open>
  The theorem where a slow effect was collected before a widen-gap effect, both active: the
  widen-gap speed stays, 1.1 times the base speed. With the two collected in the other
  order the slow speed stays, half the base speed.
\<close>

theorem speed_set_by_last_in_list_witness:
  "liveKinds 2000 overlapState = [ETH, BTC] \<and>
   currentSpeed (processEffects 2000 overlapState) = 2783 / 1000 \<and>
   liveKinds 2000 (overlapState\<lparr>activeEffects := rev (activeEffects overlapState)\<rparr>) = [BTC, ETH] \<and>
   currentSpeed (processEffects 2000 (overlapState\<lparr>activeEffects := rev (activeEffects overlapState)\<rparr>)) =
     253 / 200"
proof -
  have k: "liveKinds 2000 overlapState = [ETH, BTC]"
    "liveKinds 2000 (overlapState\<lparr>activeEffects := rev (activeEffects overlapState)\<rparr>) = [BTC, ETH]"
    "baseSpeed overlapState = 253 / 100"
    by (simp_all add: liveKinds_def overlapState_def edgeState_def mount_def GATE_SPEED_def)
  from speed_set_by_last_in_list [of 2000 overlapState]
       speed_set_by_last_in_list [of 2000 "overlapState\<lparr>activeEffects := rev (activeEffects overlapState)\<rparr>"]
  show ?thesis
    by (simp add: k speedByListOrder_def BTC_SPEED_BOOST_def)
qed

text \<open>
  Claim C3 as stated fails: with a slow effect collected first and a widen-gap effect collected
  after it, both active, the loop leaves the widen-gap speed, 1.1 times the base speed; the
  declaration order puts the slow kind (ETH) after the widen-gap kind (BTC) and would give
  half the base speed.
\<close>

theorem speed_by_declaration_order_counterexample:
  "liveKinds 2000 overlapState = [ETH, BTC] \<and>
   currentSpeed (processEffects 2000 overlapState) = 2783 / 1000 \<and>
   specSpeedByDeclarationOrder (baseSpeed overlapState) (liveKinds 2000 overlapState) = 253 / 200 \<and>
   currentSpeed (processEffects 2000 overlapState) \<noteq>
     specSpeedByDeclarationOrder (baseSpeed overlapState) (liveKinds 2000 overlapState)"
  by (simp add: overlapState_def edgeState_def mount_def processEffects_def
      specSpeedByDeclarationOrder_def declarationOrder_def liveKinds_def game_constants)

lemma applyRule_velocity:
  "lineVelocity (applyRule e s) = (if etype e = SOL then 0 else lineVelocity s)"
  "solEffectActive (applyRule e s) = (etype e = SOL \<or> solEffectActive s)"
  by (cases "etype e"; simp)+

lemma applyRules_velocity:
  "lineVelocity (applyRules es s) = (if SOL \<in> set (map etype es) then 0 else lineVelocity s)"
  "solEffectActive (applyRules es s) = (SOL \<in> set (map etype es) \<or> solEffectActive s)"
proof (induction es arbitrary: s)
  case Nil
  { case 1 show ?case by simp }
  { case 2 show ?case by simp }
next
  case (Cons e es)
  { case 1 show ?case by (auto simp add: Cons.IH applyRule_velocity simp del: applyRule.simps) }
  { case 2 show ?case by (auto simp add: Cons.IH applyRule_velocity simp del: applyRule.simps) }
qed

text \<open>
  With a frictionless effect active the frame resets the velocity to zero and skips gravity;
  the chaos perturbation, when chaos mode is on, is still added.
\<close>

lemma frictionless_velocity:
  assumes "SOL \<in> set (liveKinds t s)"
  shows "solEffectActive (velocityStep t r s)"
    and "lineVelocity (velocityStep t r s) =
           (if chaosMode s \<and> t < chaosModeEndTime s then (chaosRoll r - 5 / 10) * 2 else 0)"
    and "lineY (gameLoop t r s) = lineY s + lineVelocity (velocityStep t r s)"
  using assms
  by (simp_all add: velocityStep_def applyChaos_def applyGravity_def processEffects_def Let_def
      applyRules_velocity liveKinds_def gameLoop_def)

text \<open>
  Claim C2 at a frame in which the frictionless effect and chaos mode are both active: the
  velocity with which the position is integrated is the chaos perturbation, 0.5, not zero,
  and the player moves by it. In the same state without chaos mode the velocity is zero.
\<close>

theorem frictionless_velocity_under_chaos:
  "SOL \<in> set (liveKinds 2500 chaosSolState) \<and>
   solEffectActive (velocityStep 2500 chaosRolls chaosSolState) \<and>
   lineVelocity (velocityStep 2500 chaosRolls chaosSolState) = 1 / 2 \<and>
   lineY (gameLoop 2500 chaosRolls chaosSolState) = lineY chaosSolState + 1 / 2 \<and>
   lineVelocity (velocityStep 2500 chaosRolls (chaosSolState\<lparr>chaosMode := False\<rparr>)) = 0"
proof -
  have live: "SOL \<in> set (liveKinds 2500 chaosSolState)"
    "SOL \<in> set (liveKinds 2500 (chaosSolState\<lparr>chaosMode := False\<rparr>))"
    by (simp_all add: liveKinds_def chaosSolState_def)
  have c: "chaosMode chaosSolState" "chaosModeEndTime chaosSolState = 4000"
    "chaosRoll chaosRolls = 3 / 4"
    by (simp_all add: chaosSolState_def chaosRolls_def noRolls_def)
  from frictionless_velocity [OF live(1), of chaosRolls] frictionless_velocity(2) [OF live(2), of chaosRolls]
    live(1) c
  show ?thesis by simp
qed

end
